theory Spec2Isabelle
  imports Main
begin

section \<open>rehype-astro-images: a shallow embedding of src/index.js\<close>

text \<open>
  The plugin walks a hast tree, collects the \<open>img\<close> elements whose \<open>src\<close> is one of the
  image paths attached to the file, resolves each distinct reference to a file on disk,
  asks the image service for the final location, and writes the result back to the nodes.

  JavaScript strings are modelled as \<open>string\<close> (one \<open>char\<close> per code unit; every
  character the code inspects is ASCII). Exceptions and rejected promises are values of the
  type \<open>error\<close>. The file system, the hash function, the image service and the URL parser
  are parameters, collected in the record \<open>env\<close>; each is a function of its arguments,
  that is, the outside world does not change during one pass.
\<close>

subsection \<open>Errors\<close>

datatype error =
    MetadataMissing string      \<comment> \<open>\<open>new Error(`Failed to get metadata for image ${relativePath}`)\<close>\<close>
  | MultipleOutputOptions       \<comment> \<open>\<open>new Error("We don't know how to handle multiple output options")\<close>\<close>
  | NotAFunction string         \<comment> \<open>TypeError: \<open>replacements[type]\<close> is not a function\<close>
  | PrototypeMethodThrew string \<comment> \<open>TypeError raised inside an inherited method\<close>
  | ReadFailed string           \<comment> \<open>\<open>fs.readFileSync\<close> threw\<close>
  | ServiceFailed string        \<comment> \<open>\<open>imageMetadata\<close> or \<open>getImage\<close> rejected\<close>
  | InvalidURL string           \<comment> \<open>TypeError of \<open>new URL\<close>\<close>

subsection \<open>node:path, POSIX flavour\<close>

text \<open>
  \<open>path.basename(p)\<close>: trailing slashes are dropped, then the characters after the last
  remaining slash are returned.
\<close>

definition path_basename :: "string \<Rightarrow> string" where
  "path_basename p =
     rev (takeWhile (\<lambda>c. c \<noteq> CHR ''/'') (dropWhile (\<lambda>c. c = CHR ''/'') (rev p)))"

text \<open>
  \<open>path.extname(p)\<close>: from the last dot of the last path component to its end; empty
  when the component has no dot, when its last dot is its first character, and for the
  component \<open>..\<close>.
\<close>

definition path_extname :: "string \<Rightarrow> string" where
  "path_extname p =
     (let seg = path_basename p;
          suffix = rev (takeWhile (\<lambda>c. c \<noteq> CHR ''.'') (rev seg));
          stem = rev (drop 1 (dropWhile (\<lambda>c. c \<noteq> CHR ''.'') (rev seg)))
      in if CHR ''.'' \<notin> set seg then []
         else if stem = [] then []
         else if seg = ''..'' then []
         else CHR ''.'' # suffix)"

text \<open>
  \<open>path.dirname(p)\<close>: the loop runs from the last index down to index 1, skips trailing
  slashes and the last component, and stops at the first slash before it; the path up to
  that slash is returned, \<open>/\<close> or \<open>.\<close> when there is none.
\<close>

definition path_dirname :: "string \<Rightarrow> string" where
  "path_dirname p =
     (if p = [] then ''.''
      else
        let hasRoot = (hd p = CHR ''/'');
            r = dropWhile (\<lambda>c. c \<noteq> CHR ''/'') (dropWhile (\<lambda>c. c = CHR ''/'') (rev (tl p)));
            endIdx = length r
        in if r = [] then (if hasRoot then ''/'' else ''.'')
           else if hasRoot \<and> endIdx = 1 then ''//''
           else take endIdx p)"

fun split_slash :: "string \<Rightarrow> string list" where
  "split_slash [] = [[]]"
| "split_slash (c # cs) =
     (if c = CHR ''/'' then [] # split_slash cs
      else (case split_slash cs of
              [] \<Rightarrow> [[c]]
            | s # ss \<Rightarrow> (c # s) # ss))"

fun join_slash :: "string list \<Rightarrow> string" where
  "join_slash [] = []"
| "join_slash [s] = s"
| "join_slash (s # t # ss) = s @ CHR ''/'' # join_slash (t # ss)"

text \<open>
  \<open>normalizeString(path, allowAboveRoot)\<close>: the result is built component by component;
  empty components and \<open>.\<close> are skipped, \<open>..\<close> removes the last component of the result
  unless there is none or it is \<open>..\<close> itself, in which case \<open>..\<close> is appended when
  \<open>allowAboveRoot\<close> holds and dropped otherwise.
\<close>

definition normalize_step :: "bool \<Rightarrow> string list \<Rightarrow> string \<Rightarrow> string list" where
  "normalize_step allowAboveRoot res seg =
     (if seg = [] \<or> seg = ''.'' then res
      else if seg = ''..'' then
        (if res \<noteq> [] \<and> last res \<noteq> ''..'' then butlast res
         else if allowAboveRoot then res @ [''..'']
         else res)
      else res @ [seg])"

definition normalizeString :: "string \<Rightarrow> bool \<Rightarrow> string" where
  "normalizeString p allowAboveRoot =
     join_slash (foldl (normalize_step allowAboveRoot) [] (split_slash p))"

text \<open>
  \<open>path.resolve(...args)\<close>: the arguments are prepended from right to left, the working
  directory last, until an absolute one has been prepended; empty arguments are skipped.
  The first argument of \<open>resolve_prepend\<close> is that sequence, rightmost argument first.
\<close>

fun resolve_prepend :: "string list \<Rightarrow> string \<Rightarrow> string \<times> bool" where
  "resolve_prepend [] resolvedPath = (resolvedPath, False)"
| "resolve_prepend (p # ps) resolvedPath =
     (if p = [] then resolve_prepend ps resolvedPath
      else if hd p = CHR ''/'' then (p @ CHR ''/'' # resolvedPath, True)
      else resolve_prepend ps (p @ CHR ''/'' # resolvedPath))"

definition path_resolve :: "string \<Rightarrow> string list \<Rightarrow> string" where
  "path_resolve cwd args =
     (case resolve_prepend (rev args @ [cwd]) [] of
        (resolvedPath, resolvedAbsolute) \<Rightarrow>
          let n = normalizeString resolvedPath (\<not> resolvedAbsolute)
          in if resolvedAbsolute then CHR ''/'' # n
             else if n \<noteq> [] then n else ''.'')"

text \<open>
  \<open>path.normalize\<close> and \<open>path.join\<close>, the reading of the words \<open>the join of\<close> in claim C4:
  the non-empty arguments are put together with slashes and the result is normalised;
  unlike \<open>path.resolve\<close>, a later absolute argument does not discard the earlier ones,
  the working directory plays no part, and a trailing slash is kept.
\<close>

definition path_normalize :: "string \<Rightarrow> string" where
  "path_normalize p =
     (if p = [] then ''.''
      else
        let isAbsolute = (hd p = CHR ''/'');
            trailingSeparator = (last p = CHR ''/'');
            n = normalizeString p (\<not> isAbsolute)
        in if n = [] then
             (if isAbsolute then ''/'' else if trailingSeparator then ''./'' else ''.'')
           else
             let n' = (if trailingSeparator then n @ ''/'' else n)
             in if isAbsolute then CHR ''/'' # n' else n')"

definition path_join :: "string list \<Rightarrow> string" where
  "path_join args =
     (case filter (\<lambda>arg. arg \<noteq> []) args of
        [] \<Rightarrow> ''.''
      | a # as \<Rightarrow> path_normalize (join_slash (a # as)))"

subsection \<open>Asset file names\<close>

text \<open>The character classes \<open>\w\<close> and \<open>\d\<close> of a regular expression without the u flag.\<close>

definition is_word_char :: "char \<Rightarrow> bool" where
  "is_word_char c \<longleftrightarrow>
     c \<in> set ''abcdefghijklmnopqrstuvwxyzABCDEFGHIJKLMNOPQRSTUVWXYZ0123456789_''"

definition is_digit_char :: "char \<Rightarrow> bool" where
  "is_digit_char c \<longleftrightarrow> c \<in> set ''0123456789''"

definition digit_value :: "char \<Rightarrow> nat" where
  "digit_value c = length (takeWhile (\<lambda>d. d \<noteq> c) ''0123456789'')"

text \<open>
  \<open>Number.parseInt\<close> on a non-empty string of decimal digits. The value is exact below
  \<open>2^53\<close>; every use below only compares it with the length of a short string.
\<close>

definition parseInt :: "string \<Rightarrow> nat" where
  "parseInt ds = foldl (\<lambda>a c. 10 * a + digit_value c) 0 ds"

text \<open>
  One attempt of the regular expression \<open>/\[(\w+)(:\d+)?]/\<close> at the start of a string: the
  first group, the second group (with its colon) when it took part, and the rest of the
  string after the match. Both repetitions are greedy, and giving back characters never
  helps: the character after a shorter run is again a word character (a digit).
\<close>

definition match_token :: "string \<Rightarrow> (string \<times> string option \<times> string) option" where
  "match_token s =
     (case s of
        [] \<Rightarrow> None
      | c # cs \<Rightarrow>
          if c \<noteq> CHR ''['' then None
          else
            let type = takeWhile is_word_char cs;
                r = dropWhile is_word_char cs
            in if type = [] then None
               else (case r of
                       [] \<Rightarrow> None
                     | d # r' \<Rightarrow>
                         if d = CHR '']'' then Some (type, None, r')
                         else if d = CHR '':'' then
                           (let digits = takeWhile is_digit_char r';
                                r'' = dropWhile is_digit_char r'
                            in if digits = [] then None
                               else (case r'' of
                                       [] \<Rightarrow> None
                                     | e # rest \<Rightarrow>
                                         if e = CHR '']''
                                         then Some (type, Some (CHR '':'' # digits), rest)
                                         else None))
                         else None))"

lemma match_token_shorter:
  "match_token s = Some (type, sz, rest) \<Longrightarrow> length rest < length s"
proof -
  have dw: "\<And>P (xs :: string). length (dropWhile P xs) \<le> length xs"
    by (simp add: length_dropWhile_le)
  assume m: "match_token s = Some (type, sz, rest)"
  then obtain cs where s: "s = CHR ''['' # cs"
    by (auto simp: match_token_def split: list.splits if_splits)
  let ?r = "dropWhile is_word_char cs"
  from m s obtain d r' where r: "?r = d # r'"
    by (auto simp: match_token_def Let_def split: list.splits if_splits)
  have lr: "length r' < length cs"
    using dw [of is_word_char cs] r by simp
  show ?thesis
  proof (cases "d = CHR '']''")
    case True
    with m s r have "rest = r'"
      by (auto simp: match_token_def Let_def split: list.splits if_splits)
    with lr s show ?thesis by simp
  next
    case False
    with m s r obtain e where "dropWhile is_digit_char r' = e # rest"
      by (auto simp: match_token_def Let_def split: list.splits if_splits)
    then have "length rest < length r'"
      using dw [of is_digit_char r'] by simp
    with lr s show ?thesis by simp
  qed
qed

text \<open>
  \<open>pattern.replace(/\[(\w+)(:\d+)?]/g, callback)\<close>: the string is scanned from the left;
  where the expression matches, the callback's string replaces the match and the scan
  goes on after it; any other character is copied. An exception of the callback ends
  the call.
\<close>

function replace_tokens ::
  "(string \<Rightarrow> string option \<Rightarrow> error + string) \<Rightarrow> string \<Rightarrow> error + string" where
  "replace_tokens callback s =
     (case s of
        [] \<Rightarrow> Inr []
      | c # cs \<Rightarrow>
          (case match_token s of
             None \<Rightarrow>
               (case replace_tokens callback cs of
                  Inl e \<Rightarrow> Inl e
                | Inr out \<Rightarrow> Inr (c # out))
           | Some (type, sz, rest) \<Rightarrow>
               (case callback type sz of
                  Inl e \<Rightarrow> Inl e
                | Inr text \<Rightarrow>
                    (case replace_tokens callback rest of
                       Inl e \<Rightarrow> Inl e
                     | Inr out \<Rightarrow> Inr (text @ out)))))"
  by pat_completeness auto
termination
  by (relation "measure (\<lambda>(callback, s). length s)")
     (auto dest: match_token_shorter)

text \<open>The decimal numeral of a number, as \<open>String(n)\<close> prints an integer below \<open>10^21\<close>.\<close>

function decimal :: "nat \<Rightarrow> string" where
  "decimal n =
     (if n < 10 then [''0123456789'' ! n]
      else decimal (n div 10) @ [''0123456789'' ! (n mod 10)])"
  by pat_completeness auto
termination
  by (relation "measure id") auto

text \<open>
  The object literal \<open>replacements\<close> of \<open>generateAssetFileName\<close> inherits from
  \<open>Object.prototype\<close>, so \<open>replacements[type]\<close> also finds the members of the
  prototype. \<open>object_prototype_member\<close> lists the callable ones with what a call
  \<open>replacements[type](arg)\<close> returns once \<open>replace\<close> has turned it into a string: the
  methods that return the object (or a new empty one) print \<open>[object Object]\<close>, the
  predicates return \<open>false\<close>, the getter lookups \<open>undefined\<close>, and
  \<open>__defineGetter__\<close> and \<open>__defineSetter__\<close> raise a TypeError. \<open>__proto__\<close> is an
  object, not a function: calling it fails like a name that is not found.
\<close>

definition object_prototype_member :: "string \<Rightarrow> (nat option \<Rightarrow> error + string) option" where
  "object_prototype_member type =
     (if type = ''toString'' \<or> type = ''toLocaleString'' \<or> type = ''valueOf''
        then Some (\<lambda>arg. Inr ''[object Object]'')
      else if type = ''constructor''
        then Some (\<lambda>arg. case arg of None \<Rightarrow> Inr ''[object Object]'' | Some n \<Rightarrow> Inr (decimal n))
      else if type = ''hasOwnProperty'' \<or> type = ''isPrototypeOf'' \<or> type = ''propertyIsEnumerable''
        then Some (\<lambda>arg. Inr ''false'')
      else if type = ''__lookupGetter__'' \<or> type = ''__lookupSetter__''
        then Some (\<lambda>arg. Inr ''undefined'')
      else if type = ''__defineGetter__'' \<or> type = ''__defineSetter__''
        then Some (\<lambda>arg. Inl (PrototypeMethodThrew type))
      else None)"

definition defaultHashSize :: nat where
  "defaultHashSize = 8"

text \<open>
  The four own members of \<open>replacements\<close>; \<open>size || defaultHashSize\<close> takes the default
  for \<open>undefined\<close> and for \<open>0\<close>.
\<close>

definition replacements ::
  "string \<Rightarrow> string \<Rightarrow> string \<Rightarrow> (nat option \<Rightarrow> error + string) option" where
  "replacements name sourceHash type =
     (if type = ''ext'' then Some (\<lambda>arg. Inr (drop 1 (path_extname name)))
      else if type = ''extname'' then Some (\<lambda>arg. Inr (path_extname name))
      else if type = ''hash'' then
        Some (\<lambda>arg. Inr (take (max 0 (case arg of
                                         None \<Rightarrow> defaultHashSize
                                       | Some n \<Rightarrow> if n = 0 then defaultHashSize else n))
                             sourceHash))
      else if type = ''name'' then
        Some (\<lambda>arg. Inr (take (max 0 (length name - length (path_extname name))) name))
      else object_prototype_member type)"

text \<open>
  \<open>renderNamePattern(pattern, replacements)\<close>. The callback computes
  \<open>size && Number.parseInt(size.slice(1))\<close> and calls \<open>replacements[type]\<close> with it.
\<close>

definition renderNamePattern ::
  "string \<Rightarrow> (string \<Rightarrow> (nat option \<Rightarrow> error + string) option) \<Rightarrow> error + string" where
  "renderNamePattern pattern repl =
     replace_tokens
       (\<lambda>type sz.
          case repl type of
            None \<Rightarrow> Inl (NotAFunction type)
          | Some f \<Rightarrow> f (map_option (\<lambda>g. parseInt (drop 1 g)) sz))
       pattern"

type_synonym bytes = "nat list"

record asset_info =
  asset_name :: string
  asset_source :: bytes
  asset_type :: string

datatype asset_file_names =
    PatternString string
  | PatternFunction "asset_info \<Rightarrow> string"

definition generateAssetFileName ::
  "string \<Rightarrow> bytes \<Rightarrow> string \<Rightarrow> asset_file_names \<Rightarrow> error + string" where
  "generateAssetFileName name source sourceHash assetFileNames =
     renderNamePattern
       (case assetFileNames of
          PatternFunction f \<Rightarrow>
            f \<lparr>asset_name = name, asset_source = source, asset_type = ''asset''\<rparr>
        | PatternString p \<Rightarrow> p)
       (replacements name sourceHash)"

subsection \<open>Configuration and the outside world\<close>

text \<open>
  The part of the Vite configuration the plugin reads:
  \<open>viteConfig?.build?.rollupOptions?.output\<close>, which is absent, one output object or an
  array of them, and the \<open>assetFileNames\<close> of an output object.
\<close>

datatype rollup_output =
    SingleOutput "asset_file_names option"
  | OutputArray "asset_file_names option list"

record rollup_options =
  outputOption :: "rollup_output option"

record build_options =
  rollupOptions :: "rollup_options option"

record vite_config =
  build :: "build_options option"

datatype root_url = UrlObject string | UrlString string

record options =
  rootPath :: string
  rootUrl :: "root_url option"
  viteConfig :: "vite_config option"

record image_meta =
  width :: nat
  height :: nat
  format :: string

record env =
  cwd :: string
  existsSync :: "string \<Rightarrow> bool"
  readFileSync :: "string \<Rightarrow> bytes option"
  sha256_hex :: "bytes \<Rightarrow> string"
  imageMetadata :: "string \<Rightarrow> error + image_meta option"
  getImage :: "image_meta \<Rightarrow> string \<Rightarrow> error + string"
  new_URL :: "string \<Rightarrow> root_url \<Rightarrow> error + string"

definition config_output :: "vite_config option \<Rightarrow> rollup_output option" where
  "config_output cfg =
     (case cfg of
        None \<Rightarrow> None
      | Some c \<Rightarrow>
          (case build c of
             None \<Rightarrow> None
           | Some b \<Rightarrow>
               (case rollupOptions b of
                  None \<Rightarrow> None
                | Some r \<Rightarrow> outputOption r)))"

definition getImageSource :: "env \<Rightarrow> string \<Rightarrow> error + bytes" where
  "getImageSource e imagePath =
     (case readFileSync e imagePath of
        None \<Rightarrow> Inl (ReadFailed imagePath)
      | Some data \<Rightarrow> Inr data)"

definition getImageHash :: "env \<Rightarrow> bytes \<Rightarrow> string" where
  "getImageHash e imageSource = take (max 0 8) (sha256_hex e imageSource)"

definition default_pattern :: string where
  "default_pattern = ''assets/[name]-[hash][extname]''"

definition getImageAssetFileName :: "env \<Rightarrow> string \<Rightarrow> vite_config option \<Rightarrow> error + string" where
  "getImageAssetFileName e absolutePath cfg =
     (case getImageSource e absolutePath of
        Inl err \<Rightarrow> Inl err
      | Inr source \<Rightarrow>
          let sourceHash = getImageHash e source
          in (case config_output cfg of
                Some (OutputArray outs) \<Rightarrow> Inl MultipleOutputOptions
              | Some (SingleOutput (Some (PatternFunction f))) \<Rightarrow>
                  generateAssetFileName (path_basename absolutePath) source sourceHash
                    (PatternFunction f)
              | Some (SingleOutput (Some (PatternString p))) \<Rightarrow>
                  generateAssetFileName (path_basename absolutePath) source sourceHash
                    (PatternString (if p = [] then default_pattern else p))
              | _ \<Rightarrow>
                  generateAssetFileName (path_basename absolutePath) source sourceHash
                    (PatternString default_pattern)))"

definition absolutize :: "string \<Rightarrow> string" where
  "absolutize p = (if take 1 p = ''/'' then CHR ''/'' # p else p)"

subsection \<open>The document tree and the file\<close>

text \<open>
  A hast node has fields of its own (\<open>type\<close>, and \<open>tagName\<close> and \<open>properties\<close> for an
  element, \<open>value\<close> for text) and, for a root or an element, children. The value of a
  property is a string, a number, a boolean, \<open>null\<close> or a list of strings; an element
  may lack \<open>properties\<close>.
\<close>

datatype prop_value =
    PString string
  | PNumber int
  | PBoolean bool
  | PNull
  | PArray "string list"

type_synonym properties = "(string \<times> prop_value) list"

datatype node_data =
    RootNode
  | Element string "properties option"
  | TextNode string
  | CommentNode string
  | DoctypeNode

datatype node = Node node_data "node list"

text \<open>
  \<open>file.path\<close> is a string or undefined; \<open>file.data.imagePaths\<close> is whatever an earlier
  plugin stored there: nothing, a \<open>Set\<close> (listed by its members), an array, or a value of
  another kind.
\<close>

datatype image_paths_value =
    Undefined
  | SetOf "string list"
  | ArrayOf "string list"
  | OtherValue

record vfile =
  file_path :: "string option"
  imagePaths :: image_paths_value

text \<open>
  \<open>visit(tree, visitor)\<close> calls the visitor on every node, parents before children and
  children from left to right. The nodes are JavaScript objects, which the plugin keeps in
  \<open>imageNodes\<close> and mutates afterwards; here a node is identified by its position in
  that order, \<open>preorder\<close> lists the fields of the nodes (the store), and \<open>relabel\<close>
  puts a changed store back on the unchanged shape of the tree.
\<close>

fun preorder :: "node \<Rightarrow> node_data list" where
  "preorder (Node d cs) = d # concat (map preorder cs)"

fun relabel :: "node_data list \<Rightarrow> node \<Rightarrow> node"
  and relabel_children :: "node_data list \<Rightarrow> node list \<Rightarrow> node list" where
  "relabel store (Node d cs) =
     (case store of
        [] \<Rightarrow> Node d cs
      | d' # store' \<Rightarrow> Node d' (relabel_children store' cs))"
| "relabel_children store [] = []"
| "relabel_children store (c # cs) =
     relabel (take (length (preorder c)) store) c
       # relabel_children (drop (length (preorder c)) store) cs"

fun map_node :: "(node_data \<Rightarrow> node_data) \<Rightarrow> node \<Rightarrow> node" where
  "map_node h (Node d cs) = Node (h d) (map (map_node h) cs)"

definition node_src :: "node_data \<Rightarrow> string option" where
  "node_src d =
     (case d of
        Element tagName (Some props) \<Rightarrow>
          (case map_of props ''src'' of
             Some (PString s) \<Rightarrow> Some s
           | _ \<Rightarrow> None)
      | _ \<Rightarrow> None)"

fun assign :: "string \<Rightarrow> prop_value \<Rightarrow> properties \<Rightarrow> properties" where
  "assign k v [] = [(k, v)]"
| "assign k v ((k', v') # ps) = (if k' = k then (k, v) # ps else (k', v') # assign k v ps)"

definition set_src :: "string \<Rightarrow> node_data \<Rightarrow> node_data" where
  "set_src v d =
     (case d of
        Element tagName (Some props) \<Rightarrow> Element tagName (Some (assign ''src'' (PString v) props))
      | _ \<Rightarrow> d)"

subsection \<open>The transformer\<close>

text \<open>
  The test at the head of the visitor (lines 47 to 59): the \<open>src\<close> of a node that is an
  \<open>img\<close> element with a non-empty string \<open>src\<close> that is a member of the image paths.
\<close>

definition image_src :: "string list \<Rightarrow> node_data \<Rightarrow> string option" where
  "image_src paths d =
     (case d of
        Element tagName props \<Rightarrow>
          if tagName \<noteq> ''img'' then None
          else (case node_src d of
                  None \<Rightarrow> None
                | Some s \<Rightarrow> if s = [] then None else if s \<in> set paths then Some s else None)
      | _ \<Rightarrow> None)"

text \<open>The absolute path of a reference (lines 68 to 83).\<close>

definition resolve_reference :: "env \<Rightarrow> options \<Rightarrow> string \<Rightarrow> string \<Rightarrow> string" where
  "resolve_reference e opts filePath src =
     (if take (length ''~/assets/'') src = ''~/assets/''
      then path_resolve (cwd e)
             [rootPath opts, ''src'', ''assets'', drop (length ''~/assets/'') src]
      else path_resolve (cwd e) [path_dirname filePath, src])"

record visit_state =
  imageNodes :: "nat list"
  imagesToResolve :: "(string \<times> string) list"

definition visitor ::
  "env \<Rightarrow> options \<Rightarrow> string \<Rightarrow> string list \<Rightarrow> nat \<times> node_data \<Rightarrow> visit_state \<Rightarrow> visit_state" where
  "visitor e opts filePath paths nd st =
     (case image_src paths (snd nd) of
        None \<Rightarrow> st
      | Some src \<Rightarrow>
          if map_of (imagesToResolve st) src \<noteq> None
          then st\<lparr>imageNodes := imageNodes st @ [fst nd]\<rparr>
          else
            let absolutePath = resolve_reference e opts filePath src
            in if \<not> existsSync e absolutePath then st
               else st\<lparr>imageNodes := imageNodes st @ [fst nd],
                       imagesToResolve := imagesToResolve st @ [(src, absolutePath)]\<rparr>)"

definition collect :: "env \<Rightarrow> options \<Rightarrow> string \<Rightarrow> string list \<Rightarrow> node \<Rightarrow> visit_state" where
  "collect e opts filePath paths tree =
     fold (visitor e opts filePath paths) (enumerate 0 (preorder tree))
       \<lparr>imageNodes = [], imagesToResolve = []\<rparr>"

text \<open>
  One pipeline (lines 97 to 112). \<open>pipeline_request\<close> is the part before the call of
  \<open>getImage\<close>: the metadata is read, the asset file name is computed, and the result is
  the argument of \<open>getImage\<close>, the metadata with \<open>src\<close> replaced by the asset path.
\<close>

datatype settled = Fulfilled string string | Rejected error

definition pipeline_request :: "env \<Rightarrow> options \<Rightarrow> string \<times> string \<Rightarrow> error + image_meta \<times> string" where
  "pipeline_request e opts entry =
     (case imageMetadata e (snd entry) of
        Inl err \<Rightarrow> Inl err
      | Inr None \<Rightarrow> Inl (MetadataMissing (fst entry))
      | Inr (Some meta) \<Rightarrow>
          (case getImageAssetFileName e (snd entry) (viteConfig opts) of
             Inl err \<Rightarrow> Inl err
           | Inr assetPath \<Rightarrow> Inr (meta, assetPath)))"

definition image_pipeline :: "env \<Rightarrow> options \<Rightarrow> string \<times> string \<Rightarrow> settled" where
  "image_pipeline e opts entry =
     (case pipeline_request e opts entry of
        Inl err \<Rightarrow> Rejected err
      | Inr request \<Rightarrow>
          (case getImage e (fst request) (snd request) of
             Inl err \<Rightarrow> Rejected err
           | Inr src \<Rightarrow> Fulfilled (fst entry) src))"

text \<open>The loop over the settled promises (lines 117 to 124).\<close>

definition record_result :: "settled \<Rightarrow> (string \<rightharpoonup> string) \<Rightarrow> (string \<rightharpoonup> string)" where
  "record_result r resolvedImages =
     (case r of
        Fulfilled relativePath src \<Rightarrow> resolvedImages(relativePath \<mapsto> src)
      | Rejected reason \<Rightarrow> resolvedImages)"

definition warning_of :: "settled \<Rightarrow> error list" where
  "warning_of r = (case r of Fulfilled relativePath src \<Rightarrow> [] | Rejected reason \<Rightarrow> [reason])"

text \<open>
  \<open>if (options.rootUrl)\<close>: a URL object counts as set, a string when it is not empty.
\<close>

definition configured_root :: "options \<Rightarrow> root_url option" where
  "configured_root opts =
     (case rootUrl opts of
        None \<Rightarrow> None
      | Some (UrlObject u) \<Rightarrow> Some (UrlObject u)
      | Some (UrlString u) \<Rightarrow> if u = [] then None else Some (UrlString u))"

definition final_src :: "env \<Rightarrow> options \<Rightarrow> string \<Rightarrow> error + string" where
  "final_src e opts resolvedSrc =
     (case configured_root opts of
        Some root \<Rightarrow> new_URL e resolvedSrc root
      | None \<Rightarrow> Inr (absolutize resolvedSrc))"

text \<open>
  The loop over \<open>imageNodes\<close> (lines 126 to 138), on the store. An exception of
  \<open>new URL\<close> ends the pass; the nodes written before it stay written.
\<close>

fun rewrite_nodes ::
  "env \<Rightarrow> options \<Rightarrow> (string \<rightharpoonup> string) \<Rightarrow> nat list \<Rightarrow> node_data list
     \<Rightarrow> error option \<times> node_data list" where
  "rewrite_nodes e opts resolvedImages [] store = (None, store)"
| "rewrite_nodes e opts resolvedImages (i # rest) store =
     (case (case node_src (store ! i) of None \<Rightarrow> None | Some s \<Rightarrow> resolvedImages s) of
        None \<Rightarrow> rewrite_nodes e opts resolvedImages rest store
      | Some resolvedSrc \<Rightarrow>
          if resolvedSrc = [] then rewrite_nodes e opts resolvedImages rest store
          else (case final_src e opts resolvedSrc of
                  Inl err \<Rightarrow> (Some err, store)
                | Inr v \<Rightarrow>
                    rewrite_nodes e opts resolvedImages rest
                      (store[i := set_src v (store ! i)])))"

text \<open>
  What one pass does: the exception it ends with, if any; the tree afterwards; the
  warnings logged; the paths \<open>imageMetadata\<close> was called with; the arguments
  \<open>getImage\<close> was called with; and the mapping \<open>resolvedImages\<close>.
\<close>

record pass_result =
  thrown :: "error option"
  tree_after :: node
  warnings :: "error list"
  metadata_reads :: "string list"
  optimizer_calls :: "(image_meta \<times> string) list"
  resolved_images :: "string \<rightharpoonup> string"

definition requests_made :: "env \<Rightarrow> options \<Rightarrow> (string \<times> string) list \<Rightarrow> (image_meta \<times> string) list" where
  "requests_made e opts entries =
     concat (map (\<lambda>entry. case pipeline_request e opts entry of
                             Inl err \<Rightarrow> []
                           | Inr request \<Rightarrow> [request]) entries)"

definition transformer :: "env \<Rightarrow> options \<Rightarrow> node \<Rightarrow> vfile \<Rightarrow> pass_result" where
  "transformer e opts tree file =
     (case (file_path file, imagePaths file) of
        (Some filePath, SetOf paths) \<Rightarrow>
          if filePath = [] \<or> paths = [] then
            \<lparr>thrown = None, tree_after = tree, warnings = [], metadata_reads = [],
             optimizer_calls = [], resolved_images = Map.empty\<rparr>
          else
            let st = collect e opts filePath paths tree;
                results = map (image_pipeline e opts) (imagesToResolve st);
                resolvedImages = fold record_result results Map.empty;
                written = rewrite_nodes e opts resolvedImages (imageNodes st) (preorder tree)
            in \<lparr>thrown = fst written,
                tree_after = relabel (snd written) tree,
                warnings = concat (map warning_of results),
                metadata_reads = map snd (imagesToResolve st),
                optimizer_calls = requests_made e opts (imagesToResolve st),
                resolved_images = resolvedImages\<rparr>
      | _ \<Rightarrow>
          \<lparr>thrown = None, tree_after = tree, warnings = [], metadata_reads = [],
           optimizer_calls = [], resolved_images = Map.empty\<rparr>)"

subsection \<open>The placeholders of a pattern\<close>

text \<open>
  The matches of the regular expression in a pattern, from left to right: the name and
  the second group of each placeholder that \<open>replace\<close> would hand to the callback.
\<close>

function pattern_tokens :: "string \<Rightarrow> (string \<times> string option) list" where
  "pattern_tokens s =
     (case s of
        [] \<Rightarrow> []
      | c # cs \<Rightarrow>
          (case match_token s of
             None \<Rightarrow> pattern_tokens cs
           | Some (type, sz, rest) \<Rightarrow> (type, sz) # pattern_tokens rest))"
  by pat_completeness auto
termination
  by (relation "measure length") (auto dest: match_token_shorter)

definition known_tokens :: "string list" where
  "known_tokens = [''name'', ''ext'', ''extname'', ''hash'']"

text \<open>The members of \<open>Object.prototype\<close> that return when called as a replacement.\<close>

definition inherited_methods :: "string list" where
  "inherited_methods =
     [''toString'', ''toLocaleString'', ''valueOf'', ''constructor'', ''hasOwnProperty'',
      ''isPrototypeOf'', ''propertyIsEnumerable'', ''__lookupGetter__'', ''__lookupSetter__'']"

subsection \<open>One node at a time\<close>

text \<open>
  The pass described node by node, without the loops and the mutable maps; the
  properties below relate the transformer to this description.

  \<open>collected_src\<close>: the reference of a node that passes the visitor's test and whose
  file exists. \<open>settle_node\<close>: the node after the pass, decided by the pipeline of its
  own reference alone. \<open>write_back\<close>: one iteration of the last loop.
  \<open>urls_accepted\<close>: every non-empty location that a pipeline of the pass was fulfilled
  with can be written back; that holds when no base URL is set, and otherwise says that
  \<open>new URL\<close> accepts each of these locations against the base URL.
  \<open>entries_ok\<close>: the keys of \<open>imagesToResolve\<close> are distinct, and each is mapped to its
  absolute path, which exists.
\<close>

definition collected_src ::
  "env \<Rightarrow> options \<Rightarrow> string \<Rightarrow> string list \<Rightarrow> node_data \<Rightarrow> string option" where
  "collected_src e opts filePath paths d =
     (case image_src paths d of
        None \<Rightarrow> None
      | Some src \<Rightarrow>
          if existsSync e (resolve_reference e opts filePath src) then Some src else None)"

definition write_back :: "env \<Rightarrow> options \<Rightarrow> (string \<rightharpoonup> string) \<Rightarrow> node_data \<Rightarrow> node_data" where
  "write_back e opts resolvedImages d =
     (case (case node_src d of None \<Rightarrow> None | Some s \<Rightarrow> resolvedImages s) of
        None \<Rightarrow> d
      | Some resolvedSrc \<Rightarrow>
          if resolvedSrc = [] then d
          else (case final_src e opts resolvedSrc of Inl err \<Rightarrow> d | Inr v \<Rightarrow> set_src v d))"

definition settle_node ::
  "env \<Rightarrow> options \<Rightarrow> string \<Rightarrow> string list \<Rightarrow> node_data \<Rightarrow> node_data" where
  "settle_node e opts filePath paths d =
     (case collected_src e opts filePath paths d of
        None \<Rightarrow> d
      | Some src \<Rightarrow>
          (case image_pipeline e opts (src, resolve_reference e opts filePath src) of
             Rejected reason \<Rightarrow> d
           | Fulfilled relativePath resolvedSrc \<Rightarrow>
               if resolvedSrc = [] then d
               else (case final_src e opts resolvedSrc of
                       Inl err \<Rightarrow> d
                     | Inr v \<Rightarrow> set_src v d)))"

definition urls_accepted :: "env \<Rightarrow> options \<Rightarrow> (string \<times> string) list \<Rightarrow> bool" where
  "urls_accepted e opts entries \<longleftrightarrow>
     list_all
       (\<lambda>entry. case image_pipeline e opts entry of
                  Fulfilled relativePath resolvedSrc \<Rightarrow>
                    if resolvedSrc = [] then True
                    else (\<exists>v. final_src e opts resolvedSrc = Inr v)
                | Rejected reason \<Rightarrow> True)
       entries"

definition entries_ok :: "env \<Rightarrow> options \<Rightarrow> string \<Rightarrow> (string \<times> string) list \<Rightarrow> bool" where
  "entries_ok e opts filePath entries \<longleftrightarrow>
     distinct (map fst entries) \<and>
     list_all (\<lambda>entry. snd entry = resolve_reference e opts filePath (fst entry)
                       \<and> existsSync e (snd entry)) entries"

subsection \<open>A sample project\<close>

text \<open>
  A project with three (empty) image files, used to run the definitions: the digest is
  the SHA-256 of the empty input, the metadata of \<open>b.png\<close> cannot be read, and the image
  service answers with a location under \<open>/_astro/\<close>.
\<close>

definition example_env :: env where
  "example_env =
     \<lparr>cwd = ''/work'',
      existsSync = (\<lambda>p. p \<in> set [''/proj/src/assets/logo.png'', ''/proj/src/pages/img/a.png'',
                                  ''/proj/src/pages/img/b.png'']),
      readFileSync = (\<lambda>p. if p \<in> set [''/proj/src/assets/logo.png'',
                                       ''/proj/src/pages/img/a.png'',
                                       ''/proj/src/pages/img/b.png'']
                          then Some [] else None),
      sha256_hex = (\<lambda>b. ''e3b0c44298fc1c149afbf4c8996fb92427ae41e4649b934ca495991b7852b855''),
      imageMetadata = (\<lambda>p. if p = ''/proj/src/pages/img/b.png'' then Inl (ServiceFailed p)
                           else Inr (Some \<lparr>width = 4, height = 3, format = ''png''\<rparr>)),
      getImage = (\<lambda>meta assetPath. Inr (''/_astro/'' @ path_basename assetPath)),
      new_URL = (\<lambda>s root. Inl (InvalidURL s))\<rparr>"

definition example_options :: options where
  "example_options = \<lparr>rootPath = ''/proj'', rootUrl = None, viteConfig = None\<rparr>"

definition example_tree :: node where
  "example_tree =
     Node RootNode
       [Node (Element ''p'' (Some []))
          [Node (TextNode ''see '') [],
           Node (Element ''img''
                   (Some [(''src'', PString ''./img/a.png''), (''alt'', PString ''A'')])) []],
        Node (Element ''img'' (Some [(''src'', PString ''./img/b.png'')])) [],
        Node (Element ''img''
                (Some [(''alt'', PString ''L''), (''src'', PString ''~/assets/logo.png'')])) [],
        Node (Element ''img'' (Some [(''src'', PString ''./img/a.png'')])) []]"

definition example_file :: vfile where
  "example_file =
     \<lparr>file_path = Some ''/proj/src/pages/post.md'',
      imagePaths = SetOf [''./img/a.png'', ''./img/b.png'', ''~/assets/logo.png'']\<rparr>"

text \<open>
  Variations: a document that names one file by two references; an image service that
  answers with an empty location for the logo; a configuration with two outputs.
\<close>

definition alias_tree :: node where
  "alias_tree =
     Node RootNode
       [Node (Element ''img'' (Some [(''src'', PString ''./img/a.png'')])) [],
        Node (Element ''img'' (Some [(''src'', PString ''img/a.png'')])) []]"

definition alias_file :: vfile where
  "alias_file =
     \<lparr>file_path = Some ''/proj/src/pages/post.md'',
      imagePaths = SetOf [''./img/a.png'', ''img/a.png'']\<rparr>"

definition blank_env :: env where
  "blank_env =
     example_env\<lparr>getImage :=
       (\<lambda>meta assetPath. if assetPath = ''assets/logo-e3b0c442.png'' then Inr []
                         else Inr (''/_astro/'' @ path_basename assetPath))\<rparr>"

definition array_options :: options where
  "array_options =
     example_options\<lparr>viteConfig :=
       Some \<lparr>build = Some \<lparr>rollupOptions =
         Some \<lparr>outputOption = Some (OutputArray [None, None])\<rparr>\<rparr>\<rparr>\<rparr>"

section \<open>Properties\<close>

subsection \<open>Scanning a pattern\<close>

declare replace_tokens.simps [simp del]
declare pattern_tokens.simps [simp del]

lemma replace_tokens_Nil [simp]: "replace_tokens callback [] = Inr []"
  by (simp add: replace_tokens.simps)

lemma replace_tokens_copy [simp]:
  "match_token (c # cs) = None \<Longrightarrow>
   replace_tokens callback (c # cs) =
     (case replace_tokens callback cs of Inl e \<Rightarrow> Inl e | Inr out \<Rightarrow> Inr (c # out))"
  by (simp add: replace_tokens.simps [of callback "c # cs"])

lemma replace_tokens_match [simp]:
  assumes "match_token s = Some (type, sz, rest)"
  shows "replace_tokens callback s =
     (case callback type sz of
        Inl e \<Rightarrow> Inl e
      | Inr piece \<Rightarrow>
          (case replace_tokens callback rest of
             Inl e \<Rightarrow> Inl e
           | Inr out \<Rightarrow> Inr (piece @ out)))"
proof (cases s)
  case Nil
  with assms show ?thesis
    by (simp add: match_token_def)
next
  case (Cons c cs)
  with assms show ?thesis
    by (simp add: replace_tokens.simps [of callback "c # cs"])
qed

lemma pattern_tokens_Nil [simp]: "pattern_tokens [] = []"
  by (simp add: pattern_tokens.simps)

lemma pattern_tokens_copy [simp]:
  "match_token (c # cs) = None \<Longrightarrow> pattern_tokens (c # cs) = pattern_tokens cs"
  by (simp add: pattern_tokens.simps [of "c # cs"])

lemma pattern_tokens_match [simp]:
  assumes "match_token s = Some (type, sz, rest)"
  shows "pattern_tokens s = (type, sz) # pattern_tokens rest"
proof (cases s)
  case Nil
  with assms show ?thesis
    by (simp add: match_token_def)
next
  case (Cons c cs)
  with assms show ?thesis
    by (simp add: pattern_tokens.simps [of "c # cs"])
qed

text \<open>A string without an opening bracket has no placeholder and is copied.\<close>

lemma replace_tokens_plain:
  "CHR ''['' \<notin> set s \<Longrightarrow> replace_tokens callback s = Inr s"
proof (induction s)
  case Nil
  show ?case by simp
next
  case (Cons c cs)
  from Cons.prems have "c \<noteq> CHR ''[''" by auto
  then have "match_token (c # cs) = None" by (simp add: match_token_def)
  with Cons show ?case by simp
qed

text \<open>The call ends with the exception of the first placeholder whose callback throws.\<close>

lemma replace_tokens_throws:
  assumes "(type, sz) \<in> set (pattern_tokens s)"
    and "\<exists>err. callback type sz = Inl err"
  shows "\<exists>err. replace_tokens callback s = Inl err"
  using assms(1)
proof (induction s rule: pattern_tokens.induct)
  case (1 s)
  show ?case
  proof (cases s)
    case Nil
    with "1.prems" show ?thesis by simp
  next
    case (Cons c cs)
    show ?thesis
    proof (cases "match_token s")
      case None
      with Cons "1.prems" have "(type, sz) \<in> set (pattern_tokens cs)"
        by simp
      with "1.IH"(1) [OF Cons None] obtain err where "replace_tokens callback cs = Inl err"
        by blast
      with None Cons show ?thesis by simp
    next
      case (Some m)
      then obtain t z rest where m: "match_token s = Some (t, z, rest)"
        by (cases m) auto
      show ?thesis
      proof (cases "callback t z")
        case (Inl err)
        with m show ?thesis by simp
      next
        case (Inr piece)
        with assms(2) have "(type, sz) \<noteq> (t, z)" by auto
        with m "1.prems" have "(type, sz) \<in> set (pattern_tokens rest)"
          by auto
        from "1.IH"(2) [OF Cons m refl refl this]
        obtain err where "replace_tokens callback rest = Inl err" by blast
        with m Inr show ?thesis by simp
      qed
    qed
  qed
qed

lemma match_hash_size:
  assumes "ds \<noteq> []" and "list_all is_digit_char ds"
  shows "match_token (''[hash:'' @ ds @ '']'' @ rest) = Some (''hash'', Some (CHR '':'' # ds), rest)"
proof -
  have nd: "\<not> is_digit_char CHR '']''" by (simp add: is_digit_char_def)
  from assms(2) have all: "\<forall>c\<in>set ds. is_digit_char c" by (simp add: list_all_iff)
  have tw: "takeWhile is_digit_char (ds @ CHR '']'' # rest) = ds"
    using all nd by (simp add: takeWhile_append2)
  have dw: "dropWhile is_digit_char (ds @ CHR '']'' # rest) = CHR '']'' # rest"
    using all nd by (simp add: dropWhile_append2)
  show ?thesis
    using assms(1) tw dw by (simp add: match_token_def is_word_char_def)
qed

lemma not_word_bracket: "\<not> is_word_char CHR ''[''" "\<not> is_digit_char CHR ''[''"
  by (simp_all add: is_word_char_def is_digit_char_def)

text \<open>
  An opening bracket ends every attempt that runs into it, so a pattern can be cut before
  any opening bracket and the two parts rendered one after the other.
\<close>

lemma match_token_append:
  "match_token ((c # cs) @ CHR ''['' # r) =
     map_option (\<lambda>(type, sz, rest). (type, sz, rest @ CHR ''['' # r)) (match_token (c # cs))"
proof -
  have tw: "takeWhile is_word_char (cs @ CHR ''['' # r) = takeWhile is_word_char cs"
    by (simp add: takeWhile_tail not_word_bracket)
  have dw: "dropWhile is_word_char (cs @ CHR ''['' # r) =
            dropWhile is_word_char cs @ CHR ''['' # r"
    by (simp add: dropWhile_append3 not_word_bracket)
  consider "c \<noteq> CHR ''[''" | "c = CHR ''[''" "takeWhile is_word_char cs = []"
    | "c = CHR ''[''" "takeWhile is_word_char cs \<noteq> []" "dropWhile is_word_char cs = []"
    | d r' where "c = CHR ''[''" "takeWhile is_word_char cs \<noteq> []"
        "dropWhile is_word_char cs = d # r'"
    by (cases "dropWhile is_word_char cs") auto
  then show ?thesis
  proof cases
    case 1
    then show ?thesis by (simp add: match_token_def)
  next
    case 2
    then show ?thesis by (simp add: match_token_def tw del: takeWhile_eq_Nil_iff dropWhile_eq_Nil_conv)
  next
    case 3
    then show ?thesis by (simp add: match_token_def tw dw del: takeWhile_eq_Nil_iff dropWhile_eq_Nil_conv)
  next
    case (4 d r')
    have td: "takeWhile is_digit_char (r' @ CHR ''['' # r) = takeWhile is_digit_char r'"
      by (simp add: takeWhile_tail not_word_bracket)
    have dd: "dropWhile is_digit_char (r' @ CHR ''['' # r) =
              dropWhile is_digit_char r' @ CHR ''['' # r"
      by (simp add: dropWhile_append3 not_word_bracket)
    show ?thesis
    proof (cases "dropWhile is_digit_char r'")
      case Nil
      with 4 show ?thesis
        by (simp add: match_token_def tw dw td dd Let_def
            del: takeWhile_eq_Nil_iff dropWhile_eq_Nil_conv)
    next
      case (Cons e rest)
      with 4 show ?thesis
        by (simp add: match_token_def tw dw td dd Let_def
            del: takeWhile_eq_Nil_iff dropWhile_eq_Nil_conv)
    qed
  qed
qed

lemma replace_tokens_append:
  "replace_tokens callback (pre @ CHR ''['' # r) =
     (case replace_tokens callback pre of
        Inl e \<Rightarrow> Inl e
      | Inr out \<Rightarrow>
          (case replace_tokens callback (CHR ''['' # r) of
             Inl e \<Rightarrow> Inl e
           | Inr out' \<Rightarrow> Inr (out @ out')))"
proof (induction callback pre rule: replace_tokens.induct)
  case (1 callback s)
  show ?case
  proof (cases s)
    case Nil
    then show ?thesis by (simp split: sum.splits)
  next
    case (Cons c cs)
    show ?thesis
    proof (cases "match_token s")
      case None
      with Cons have "match_token ((c # cs) @ CHR ''['' # r) = None"
        by (simp only: match_token_append) simp
      then have "match_token (c # (cs @ CHR ''['' # r)) = None" by simp
      with "1.IH"(1) [OF Cons None] None Cons show ?thesis
        by (simp split: sum.splits)
    next
      case (Some m)
      then obtain t z rest where m: "match_token s = Some (t, z, rest)"
        by (cases m) auto
      with Cons have m': "match_token (s @ CHR ''['' # r) = Some (t, z, rest @ CHR ''['' # r)"
        by (simp only: match_token_append) simp
      show ?thesis
      proof (cases "callback t z")
        case (Inl err)
        with m m' show ?thesis by simp
      next
        case (Inr piece)
        from "1.IH"(2) [OF Cons m refl refl Inr] m m' Inr show ?thesis
          by (simp split: sum.splits)
      qed
    qed
  qed
qed

subsection \<open>The hash placeholder\<close>

text \<open>
  Claim C5, as it holds of the code. For every image content and every non-empty string
  of digits \<open>N\<close>, the placeholder \<open>[hash:N]\<close>, wherever it stands in a pattern, is replaced
  by the first \<open>N\<close> characters of the hex digest when \<open>N\<close> is between 1 and 8, and by the
  first 8 characters when \<open>N\<close> is 0 (a size of 0 selects the default) or more than 8
  (\<open>getImageHash\<close> has already cut the digest to 8 characters). The placeholder
  \<open>[hash]\<close> is replaced by the first 8 characters. The parts of the pattern before and
  after the placeholder are rendered as they would be on their own.
\<close>

theorem hash_token_length:
  assumes "ds \<noteq> []" and "list_all is_digit_char ds"
  shows "generateAssetFileName name source (getImageHash e source)
           (PatternString (pre @ ''[hash:'' @ ds @ '']'' @ post))
         = (case generateAssetFileName name source (getImageHash e source)
                   (PatternString pre) of
              Inl err \<Rightarrow> Inl err
            | Inr left \<Rightarrow>
                (case generateAssetFileName name source (getImageHash e source)
                        (PatternString post) of
                   Inl err \<Rightarrow> Inl err
                 | Inr right \<Rightarrow>
                     Inr (left
                          @ take (if parseInt ds = 0 then 8 else min (parseInt ds) 8)
                              (sha256_hex e source)
                          @ right)))
       \<and> generateAssetFileName name source (getImageHash e source)
           (PatternString (pre @ ''[hash]'' @ post))
         = (case generateAssetFileName name source (getImageHash e source)
                   (PatternString pre) of
              Inl err \<Rightarrow> Inl err
            | Inr left \<Rightarrow>
                (case generateAssetFileName name source (getImageHash e source)
                        (PatternString post) of
                   Inl err \<Rightarrow> Inl err
                 | Inr right \<Rightarrow> Inr (left @ take 8 (sha256_hex e source) @ right)))"
proof -
  have m: "match_token (CHR ''['' # ''hash:'' @ ds @ '']'' @ post)
           = Some (''hash'', Some (CHR '':'' # ds), post)"
    using match_hash_size [OF assms, of post] by simp
  have split: "pre @ ''[hash:'' @ ds @ '']'' @ post
               = pre @ CHR ''['' # (''hash:'' @ ds @ '']'' @ post)"
    by simp
  have a: "generateAssetFileName name source (getImageHash e source)
           (PatternString (pre @ ''[hash:'' @ ds @ '']'' @ post))
         = (case generateAssetFileName name source (getImageHash e source)
                   (PatternString pre) of
              Inl err \<Rightarrow> Inl err
            | Inr left \<Rightarrow>
                (case generateAssetFileName name source (getImageHash e source)
                        (PatternString post) of
                   Inl err \<Rightarrow> Inl err
                 | Inr right \<Rightarrow>
                     Inr (left
                          @ take (if parseInt ds = 0 then 8 else min (parseInt ds) 8)
                              (sha256_hex e source)
                          @ right)))"
    unfolding generateAssetFileName_def renderNamePattern_def split
    by (simp only: asset_file_names.case replace_tokens_append replace_tokens_match [OF m])
       (simp add: replacements_def defaultHashSize_def getImageHash_def min.commute
          split: sum.splits)
  have m2: "match_token (CHR ''['' # ''hash]'' @ post) = Some (''hash'', None, post)"
    by (simp add: match_token_def is_word_char_def)
  have split2: "pre @ ''[hash]'' @ post = pre @ CHR ''['' # (''hash]'' @ post)"
    by simp
  have b: "generateAssetFileName name source (getImageHash e source)
           (PatternString (pre @ ''[hash]'' @ post))
         = (case generateAssetFileName name source (getImageHash e source)
                   (PatternString pre) of
              Inl err \<Rightarrow> Inl err
            | Inr left \<Rightarrow>
                (case generateAssetFileName name source (getImageHash e source)
                        (PatternString post) of
                   Inl err \<Rightarrow> Inl err
                 | Inr right \<Rightarrow> Inr (left @ take 8 (sha256_hex e source) @ right)))"
    unfolding generateAssetFileName_def renderNamePattern_def split2
    by (simp only: asset_file_names.case replace_tokens_append replace_tokens_match [OF m2])
       (simp add: replacements_def defaultHashSize_def getImageHash_def
          split: sum.splits)
  from a b show ?thesis by (rule conjI)
qed

theorem hash_token_length_witness:
  "generateAssetFileName ''photo.png'' [] (getImageHash example_env [])
     (PatternString ''assets/[hash:4].png'') = Inr ''assets/e3b0.png''
   \<and> generateAssetFileName ''photo.png'' [] (getImageHash example_env [])
     (PatternString ''assets/[hash].png'') = Inr ''assets/e3b0c442.png''"
proof -
  have l: "generateAssetFileName ''photo.png'' [] (getImageHash example_env [])
             (PatternString ''assets/'') = Inr ''assets/''"
    by code_simp
  have r: "generateAssetFileName ''photo.png'' [] (getImageHash example_env [])
             (PatternString ''.png'') = Inr ''.png''"
    by code_simp
  from l r hash_token_length
    [of "''4''" "''photo.png''" "[]" example_env "''assets/''" "''.png''"]
  show ?thesis
    by (simp add: is_digit_char_def parseInt_def digit_value_def example_env_def)
qed

text \<open>
  Claim C5 as stated fails for \<open>N = 0\<close> and for \<open>N = 12\<close>: both render 8 characters of a
  digest of 64.
\<close>

theorem hash_token_length_counterexample:
  "generateAssetFileName ''photo.png'' [] (getImageHash example_env [])
     (PatternString ''[hash:0]'') = Inr ''e3b0c442''
   \<and> generateAssetFileName ''photo.png'' [] (getImageHash example_env [])
     (PatternString ''[hash:12]'') = Inr ''e3b0c442''
   \<and> take 0 (sha256_hex example_env []) = []
   \<and> take 12 (sha256_hex example_env []) = ''e3b0c44298fc''"
  by code_simp

subsection \<open>A function as the pattern\<close>

text \<open>A string in which the expression matches nowhere is copied.\<close>

lemma replace_tokens_no_tokens:
  "pattern_tokens s = [] \<Longrightarrow> replace_tokens callback s = Inr s"
proof (induction s rule: pattern_tokens.induct)
  case (1 s)
  show ?case
  proof (cases s)
    case Nil
    then show ?thesis by simp
  next
    case (Cons c cs)
    show ?thesis
    proof (cases "match_token s")
      case None
      with Cons "1.prems" have "pattern_tokens cs = []" by simp
      with "1.IH"(1) [OF Cons None] have "replace_tokens callback cs = Inr cs" by simp
      with None Cons show ?thesis by simp
    next
      case (Some m)
      then obtain t z rest where "match_token s = Some (t, z, rest)"
        by (cases m) auto
      with "1.prems" show ?thesis by simp
    qed
  qed
qed

text \<open>
  Claim C6, as it holds of the code. The function is called with the descriptor (the name,
  the source bytes and the type \<open>asset\<close>), and the string it returns is rendered exactly
  as a pattern string would be: its placeholders are replaced; a \<open>[name]\<close> in it, for
  one, wherever it stands, is replaced by the file name without its extension. The
  output is the returned string itself whenever that string has no placeholder.
\<close>

theorem function_result_is_rendered:
  "generateAssetFileName name source sourceHash (PatternFunction f) =
     generateAssetFileName name source sourceHash
       (PatternString (f \<lparr>asset_name = name, asset_source = source, asset_type = ''asset''\<rparr>))
   \<and> (pattern_tokens
         (f \<lparr>asset_name = name, asset_source = source, asset_type = ''asset''\<rparr>) = [] \<longrightarrow>
        generateAssetFileName name source sourceHash (PatternFunction f) =
          Inr (f \<lparr>asset_name = name, asset_source = source, asset_type = ''asset''\<rparr>))
   \<and> (f \<lparr>asset_name = name, asset_source = source, asset_type = ''asset''\<rparr>
        = pre @ ''[name]'' @ post \<longrightarrow>
        generateAssetFileName name source sourceHash (PatternFunction f) =
          (case generateAssetFileName name source sourceHash (PatternString pre) of
             Inl err \<Rightarrow> Inl err
           | Inr left \<Rightarrow>
               (case generateAssetFileName name source sourceHash (PatternString post) of
                  Inl err \<Rightarrow> Inl err
                | Inr right \<Rightarrow>
                    Inr (left @ take (length name - length (path_extname name)) name
                         @ right))))"
proof (intro conjI impI)
  show "generateAssetFileName name source sourceHash (PatternFunction f) =
     generateAssetFileName name source sourceHash
       (PatternString (f \<lparr>asset_name = name, asset_source = source, asset_type = ''asset''\<rparr>))"
    by (simp add: generateAssetFileName_def)
next
  assume "pattern_tokens
         (f \<lparr>asset_name = name, asset_source = source, asset_type = ''asset''\<rparr>) = []"
  then show "generateAssetFileName name source sourceHash (PatternFunction f) =
          Inr (f \<lparr>asset_name = name, asset_source = source, asset_type = ''asset''\<rparr>)"
    by (simp add: generateAssetFileName_def renderNamePattern_def replace_tokens_no_tokens)
next
  assume r: "f \<lparr>asset_name = name, asset_source = source, asset_type = ''asset''\<rparr>
        = pre @ ''[name]'' @ post"
  have m: "match_token (CHR ''['' # ''name]'' @ post) = Some (''name'', None, post)"
    by (simp add: match_token_def is_word_char_def)
  have split: "pre @ ''[name]'' @ post = pre @ CHR ''['' # (''name]'' @ post)"
    by simp
  show "generateAssetFileName name source sourceHash (PatternFunction f) =
          (case generateAssetFileName name source sourceHash (PatternString pre) of
             Inl err \<Rightarrow> Inl err
           | Inr left \<Rightarrow>
               (case generateAssetFileName name source sourceHash (PatternString post) of
                  Inl err \<Rightarrow> Inl err
                | Inr right \<Rightarrow>
                    Inr (left @ take (length name - length (path_extname name)) name
                         @ right)))"
    unfolding generateAssetFileName_def renderNamePattern_def asset_file_names.case r split
    by (simp only: replace_tokens_append replace_tokens_match [OF m])
       (simp add: replacements_def split: sum.splits)
qed

theorem function_result_is_rendered_witness:
  "generateAssetFileName ''photo.png'' [1, 2, 3] ''abcdef12''
     (PatternFunction (\<lambda>info. ''img/[x-y]/'' @ asset_name info)) = Inr ''img/[x-y]/photo.png''
   \<and> generateAssetFileName ''photo.png'' [1, 2, 3] ''abcdef12''
     (PatternFunction (\<lambda>info. ''img/[name].bin'')) = Inr ''img/photo.bin''"
proof -
  have none: "pattern_tokens ''img/[x-y]/photo.png'' = []"
    by code_simp
  have a: "generateAssetFileName ''photo.png'' [1, 2, 3] ''abcdef12''
     (PatternFunction (\<lambda>info. ''img/[x-y]/'' @ asset_name info)) = Inr ''img/[x-y]/photo.png''"
    using none function_result_is_rendered
      [of "''photo.png''" "[1, 2, 3]" "''abcdef12''" "\<lambda>info. ''img/[x-y]/'' @ asset_name info",
       THEN conjunct2, THEN conjunct1]
    by simp
  have l: "generateAssetFileName ''photo.png'' [1, 2, 3] ''abcdef12'' (PatternString ''img/'')
           = Inr ''img/''"
    by code_simp
  have r: "generateAssetFileName ''photo.png'' [1, 2, 3] ''abcdef12'' (PatternString ''.bin'')
           = Inr ''.bin''"
    by code_simp
  have e: "take (length ''photo.png'' - length (path_extname ''photo.png'')) ''photo.png''
           = ''photo''"
    by code_simp
  have b: "generateAssetFileName ''photo.png'' [1, 2, 3] ''abcdef12''
     (PatternFunction (\<lambda>info. ''img/[name].bin'')) = Inr ''img/photo.bin''"
    using function_result_is_rendered
      [of "''photo.png''" "[1, 2, 3]" "''abcdef12''" "\<lambda>info. ''img/[name].bin''"
          "''img/''" "''.bin''", THEN conjunct2, THEN conjunct2]
    unfolding l r e by simp
  from a b show ?thesis by (rule conjI)
qed

text \<open>
  Claim C6 as stated fails: the string a function returns is not used as it is.
\<close>

theorem function_result_is_rendered_counterexample:
  "generateAssetFileName ''photo.png'' [1, 2, 3] ''abcdef12''
     (PatternFunction (\<lambda>info. ''img/[name]-[hash:4]'')) = Inr ''img/photo-abcd''
   \<and> (\<lambda>info. ''img/[name]-[hash:4]'')
        \<lparr>asset_name = ''photo.png'', asset_source = [1, 2, 3], asset_type = ''asset''\<rparr>
      \<noteq> ''img/photo-abcd''"
  by code_simp

subsection \<open>Unknown placeholders\<close>

text \<open>
  Claim C8, as it holds of the code. When a pattern has a placeholder whose name is none
  of \<open>name\<close>, \<open>ext\<close>, \<open>extname\<close>, \<open>hash\<close> and none of the methods every object inherits
  (\<open>inherited_methods\<close>), rendering the pattern throws.
\<close>

theorem unknown_token_throws:
  assumes "(type, sz) \<in> set (pattern_tokens pattern)"
    and "type \<notin> set known_tokens" and "type \<notin> set inherited_methods"
  shows "\<exists>err. renderNamePattern pattern (replacements name sourceHash) = Inl err"
proof -
  have "\<exists>err. (case replacements name sourceHash type of
                 None \<Rightarrow> Inl (NotAFunction type)
               | Some f \<Rightarrow> f (map_option (\<lambda>g. parseInt (drop 1 g)) sz)) = Inl err"
    using assms(2,3)
    by (simp add: replacements_def object_prototype_member_def known_tokens_def
          inherited_methods_def)
  then show ?thesis
    unfolding renderNamePattern_def
    by (rule replace_tokens_throws [OF assms(1)])
qed

theorem unknown_token_throws_witness:
  "\<exists>err. renderNamePattern ''assets/[name]-[foo:12]'' (replacements ''photo.png'' ''abcdef12'')
          = Inl err"
  using unknown_token_throws
    [of "''foo''" "Some '':12''" "''assets/[name]-[foo:12]''" "''photo.png''" "''abcdef12''"]
  by (simp add: match_token_def is_word_char_def is_digit_char_def known_tokens_def
        inherited_methods_def)

text \<open>
  Claim C8 as stated fails: \<open>toString\<close> is none of the four names, and the placeholder
  \<open>[toString]\<close> is replaced without an error.
\<close>

theorem unknown_token_throws_counterexample:
  "renderNamePattern ''assets/[toString]-[hash][extname]''
     (replacements ''photo.png'' ''abcdef12'') = Inr ''assets/[object Object]-abcdef12.png''
   \<and> pattern_tokens ''assets/[toString]-[hash][extname]''
       = [(''toString'', None), (''hash'', None), (''extname'', None)]
   \<and> ''toString'' \<notin> set known_tokens"
  by code_simp

subsection \<open>Passes that do nothing\<close>

text \<open>
  Claim C9. When the set of candidate references of the file is absent or empty, the
  transformer returns without an error and without a warning, and the tree is the tree
  it was given.
\<close>

theorem no_candidates_identity:
  "imagePaths file = Undefined \<or> imagePaths file = SetOf [] \<Longrightarrow>
   thrown (transformer e opts tree file) = None
   \<and> tree_after (transformer e opts tree file) = tree
   \<and> warnings (transformer e opts tree file) = []"
  by (auto simp: transformer_def split: option.splits)

theorem no_candidates_identity_witness:
  "thrown (transformer example_env example_options example_tree
             (example_file\<lparr>imagePaths := SetOf []\<rparr>)) = None
   \<and> tree_after (transformer example_env example_options example_tree
                   (example_file\<lparr>imagePaths := SetOf []\<rparr>)) = example_tree
   \<and> warnings (transformer example_env example_options example_tree
                 (example_file\<lparr>imagePaths := SetOf []\<rparr>)) = []"
  using no_candidates_identity
    [of "example_file\<lparr>imagePaths := SetOf []\<rparr>" example_env example_options example_tree]
  by simp

text \<open>
  Claim C10. When the path of the file is missing or empty, or the value stored as the
  image paths is not a \<open>Set\<close> (an array of references, for one), the transformer returns
  at once: no error, no warning, no call of the image service, the tree unchanged.
\<close>

theorem wrong_input_is_noop:
  "file_path file = None \<or> file_path file = Some [] \<or> (\<forall>paths. imagePaths file \<noteq> SetOf paths) \<Longrightarrow>
   transformer e opts tree file =
     \<lparr>thrown = None, tree_after = tree, warnings = [], metadata_reads = [],
      optimizer_calls = [], resolved_images = Map.empty\<rparr>"
  by (cases "imagePaths file") (auto simp: transformer_def split: option.splits)

theorem wrong_input_is_noop_witness:
  "transformer example_env example_options example_tree
     (example_file\<lparr>imagePaths := ArrayOf [''./img/a.png'', ''./img/b.png'']\<rparr>) =
     \<lparr>thrown = None, tree_after = example_tree, warnings = [], metadata_reads = [],
      optimizer_calls = [], resolved_images = Map.empty\<rparr>"
  using wrong_input_is_noop
    [of "example_file\<lparr>imagePaths := ArrayOf [''./img/a.png'', ''./img/b.png'']\<rparr>"
        example_env example_options example_tree]
  by simp

subsection \<open>Writing the result back without a base URL\<close>

text \<open>
  Claim C2 does not hold of the code: \<open>absolutize\<close> puts a second slash before a path
  that starts with one. With no \<open>rootUrl\<close>, the image service's answer
  \<open>/_astro/a-e3b0c442.png\<close> is written to the node as \<open>//_astro/a-e3b0c442.png\<close>.
\<close>

theorem absolutize_doubles_slash:
  "absolutize ''/_astro/a-e3b0c442.png'' = ''//_astro/a-e3b0c442.png''
   \<and> resolved_images (transformer example_env example_options example_tree example_file)
        ''./img/a.png'' = Some ''/_astro/a-e3b0c442.png''
   \<and> tree_after (transformer example_env example_options example_tree example_file) =
       Node RootNode
         [Node (Element ''p'' (Some []))
            [Node (TextNode ''see '') [],
             Node (Element ''img''
                     (Some [(''src'', PString ''//_astro/a-e3b0c442.png''),
                            (''alt'', PString ''A'')])) []],
          Node (Element ''img'' (Some [(''src'', PString ''./img/b.png'')])) [],
          Node (Element ''img''
                  (Some [(''alt'', PString ''L''),
                         (''src'', PString ''//_astro/logo-e3b0c442.png'')])) [],
          Node (Element ''img'' (Some [(''src'', PString ''//_astro/a-e3b0c442.png'')])) []]"
  by code_simp

subsection \<open>Paths\<close>

lemma split_slash_not_Nil [simp]: "split_slash p \<noteq> []"
  by (induction p) (auto split: list.splits)

lemma split_slash_snoc: "split_slash (p @ ''/'') = split_slash p @ [[]]"
  by (induction p) (auto split: list.splits)

lemma normalizeString_trailing: "normalizeString (p @ ''/'') b = normalizeString p b"
  by (simp add: normalizeString_def split_slash_snoc normalize_step_def)

lemma resolve_alias:
  assumes root: "take 1 root = ''/''"
    and rem: "take 1 rem \<noteq> ''/''"
  shows "path_resolve wd [root, ''src'', ''assets'', rem] =
         CHR ''/'' # normalizeString (root @ ''/src/assets/'' @ rem) False"
proof -
  from root have r: "root \<noteq> []" "hd root = CHR ''/''"
    by (cases root; simp)+
  show ?thesis
  proof (cases "rem = []")
    case True
    with r show ?thesis
      by (simp add: path_resolve_def)
  next
    case False
    with rem have "hd rem \<noteq> CHR ''/''" by (cases rem) auto
    with False r have "path_resolve wd [root, ''src'', ''assets'', rem] =
       CHR ''/'' # normalizeString ((root @ ''/src/assets/'' @ rem) @ ''/'') False"
      by (simp add: path_resolve_def)
    then show ?thesis
      by (simp only: normalizeString_trailing)
  qed
qed

lemma join_alias:
  assumes root: "take 1 root = ''/''"
    and rem: "take 1 rem \<noteq> ''/''"
    and trail: "rem = [] \<or> last rem \<noteq> CHR ''/''"
  shows "path_join [root, ''src'', ''assets'', rem] =
         CHR ''/'' # normalizeString (root @ ''/src/assets/'' @ rem) False"
proof -
  from root have r: "root \<noteq> []" "hd root = CHR ''/''"
    by (cases root; simp)+
  show ?thesis
  proof (cases "rem = []")
    case True
    have "normalizeString ((root @ ''/src/assets'') @ ''/'') False =
          normalizeString (root @ ''/src/assets'') False"
      by (rule normalizeString_trailing)
    with True r show ?thesis
      by (simp add: path_join_def path_normalize_def Let_def)
  next
    case False
    with trail have "last rem \<noteq> CHR ''/''" by simp
    with False r show ?thesis
      by (simp add: path_join_def path_normalize_def Let_def)
  qed
qed

lemma resolve_absolute_last:
  assumes "take 1 rem = ''/''"
  shows "path_resolve wd (args @ [rem]) = CHR ''/'' # normalizeString rem False"
proof -
  from assms have r: "rem \<noteq> []" "hd rem = CHR ''/''"
    by (cases rem; simp)+
  then have "path_resolve wd (args @ [rem]) = CHR ''/'' # normalizeString (rem @ ''/'') False"
    by (simp add: path_resolve_def)
  then show ?thesis
    by (simp only: normalizeString_trailing)
qed

text \<open>
  Claim C4, as it holds of the code. A reference that starts with \<open>~/assets/\<close> resolves
  to \<open>path.resolve(rootPath, 'src', 'assets', remainder)\<close>. That is the join of the four
  when \<open>rootPath\<close> is absolute and the remainder neither starts nor ends with a slash.
  When the remainder starts with a slash it is the remainder alone, normalised, and
  \<open>rootPath\<close> plays no part. Every other reference resolves against the directory of the
  document's path.
\<close>

theorem alias_resolution:
  "(take (length ''~/assets/'') src = ''~/assets/'' \<longrightarrow>
      resolve_reference e opts filePath src =
        path_resolve (cwd e)
          [rootPath opts, ''src'', ''assets'', drop (length ''~/assets/'') src])
   \<and> (take (length ''~/assets/'') src = ''~/assets/'' \<and> take 1 (rootPath opts) = ''/''
      \<and> take 1 (drop (length ''~/assets/'') src) \<noteq> ''/''
      \<and> (drop (length ''~/assets/'') src = [] \<or> last src \<noteq> CHR ''/'') \<longrightarrow>
      resolve_reference e opts filePath src =
        path_join [rootPath opts, ''src'', ''assets'', drop (length ''~/assets/'') src])
   \<and> (take (length ''~/assets/'') src = ''~/assets/''
      \<and> take 1 (drop (length ''~/assets/'') src) = ''/'' \<longrightarrow>
      resolve_reference e opts filePath src =
        CHR ''/'' # normalizeString (drop (length ''~/assets/'') src) False)
   \<and> (take (length ''~/assets/'') src \<noteq> ''~/assets/'' \<longrightarrow>
        resolve_reference e opts filePath src =
          path_resolve (cwd e) [path_dirname filePath, src])"
proof (intro conjI impI)
  assume "take (length ''~/assets/'') src = ''~/assets/''"
  then show "resolve_reference e opts filePath src =
        path_resolve (cwd e)
          [rootPath opts, ''src'', ''assets'', drop (length ''~/assets/'') src]"
    by (simp add: resolve_reference_def)
next
  assume a: "take (length ''~/assets/'') src = ''~/assets/'' \<and> take 1 (rootPath opts) = ''/''
      \<and> take 1 (drop (length ''~/assets/'') src) \<noteq> ''/''
      \<and> (drop (length ''~/assets/'') src = [] \<or> last src \<noteq> CHR ''/'')"
  let ?rem = "drop (length ''~/assets/'') src"
  from a have t: "?rem = [] \<or> last ?rem \<noteq> CHR ''/''"
    by (auto simp: last_drop)
  from a have "resolve_reference e opts filePath src =
      path_resolve (cwd e) [rootPath opts, ''src'', ''assets'', ?rem]"
    by (simp add: resolve_reference_def)
  also from a have "\<dots> = CHR ''/'' # normalizeString (rootPath opts @ ''/src/assets/'' @ ?rem) False"
    by (intro resolve_alias) simp_all
  also from a t have "\<dots> = path_join [rootPath opts, ''src'', ''assets'', ?rem]"
    by (intro join_alias [symmetric]) simp_all
  finally show "resolve_reference e opts filePath src =
        path_join [rootPath opts, ''src'', ''assets'', ?rem]" .
next
  assume a: "take (length ''~/assets/'') src = ''~/assets/''
      \<and> take 1 (drop (length ''~/assets/'') src) = ''/''"
  let ?rem = "drop (length ''~/assets/'') src"
  from a have "resolve_reference e opts filePath src =
      path_resolve (cwd e) ([rootPath opts, ''src'', ''assets''] @ [?rem])"
    by (simp add: resolve_reference_def)
  also from a have "\<dots> = CHR ''/'' # normalizeString ?rem False"
    by (intro resolve_absolute_last) simp
  finally show "resolve_reference e opts filePath src =
      CHR ''/'' # normalizeString ?rem False" .
next
  assume "take (length ''~/assets/'') src \<noteq> ''~/assets/''"
  then show "resolve_reference e opts filePath src =
      path_resolve (cwd e) [path_dirname filePath, src]"
    by (simp add: resolve_reference_def)
qed

theorem alias_resolution_witness:
  "resolve_reference example_env example_options ''/proj/src/pages/post.md''
     ''~/assets/logo.png'' = ''/proj/src/assets/logo.png''
   \<and> resolve_reference example_env example_options ''/proj/src/pages/post.md''
     ''~/assets//a/../b.png'' = ''/b.png''
   \<and> resolve_reference example_env example_options ''/proj/src/pages/post.md''
     ''./img/a.png'' = ''/proj/src/pages/img/a.png''"
proof -
  have a1: "resolve_reference example_env example_options ''/proj/src/pages/post.md''
      ''~/assets/logo.png'' =
      path_join [rootPath example_options, ''src'', ''assets'',
                 drop (length ''~/assets/'') ''~/assets/logo.png'']"
    by (rule alias_resolution [THEN conjunct2, THEN conjunct1, rule_format])
       (simp add: example_options_def)
  have j: "path_join [rootPath example_options, ''src'', ''assets'',
                      drop (length ''~/assets/'') ''~/assets/logo.png'']
           = ''/proj/src/assets/logo.png''"
    by code_simp
  have a2: "resolve_reference example_env example_options ''/proj/src/pages/post.md''
      ''~/assets//a/../b.png'' =
      CHR ''/'' # normalizeString (drop (length ''~/assets/'') ''~/assets//a/../b.png'') False"
    by (rule alias_resolution [THEN conjunct2, THEN conjunct2, THEN conjunct1, rule_format])
       simp
  have n: "CHR ''/'' # normalizeString (drop (length ''~/assets/'') ''~/assets//a/../b.png'') False
           = ''/b.png''"
    by code_simp
  have a3: "resolve_reference example_env example_options ''/proj/src/pages/post.md''
      ''./img/a.png'' =
      path_resolve (cwd example_env) [path_dirname ''/proj/src/pages/post.md'', ''./img/a.png'']"
    by (rule alias_resolution [THEN conjunct2, THEN conjunct2, THEN conjunct2, rule_format])
       simp
  have r: "path_resolve (cwd example_env)
             [path_dirname ''/proj/src/pages/post.md'', ''./img/a.png'']
           = ''/proj/src/pages/img/a.png''"
    by code_simp
  from a1 j a2 n a3 r show ?thesis
    by (simp only:)
qed

text \<open>
  Claim C4 as stated fails for a remainder that starts with a slash: \<open>path.resolve\<close>
  starts again from it, and the result is not the join.
\<close>

theorem alias_resolution_counterexample:
  "resolve_reference example_env example_options ''/proj/src/pages/post.md''
     ''~/assets//etc/passwd'' = ''/etc/passwd''
   \<and> path_join [rootPath example_options, ''src'', ''assets'', ''/etc/passwd'']
       = ''/proj/src/assets/etc/passwd''"
  by code_simp

subsection \<open>The tree and its store\<close>

lemma relabel_map:
  "relabel (map h (preorder t)) t = map_node h t"
  "relabel_children (map h (concat (map preorder cs))) cs = map (map_node h) cs"
  by (induction "map h (preorder t)" t and "map h (concat (map preorder cs))" cs
      rule: relabel_relabel_children.induct)
     (auto simp: take_map drop_map)

lemma map_node_id: "map_node (\<lambda>d. d) t = t"
  by (induction t) (simp add: map_idI)

lemma relabel_preorder: "relabel (preorder t) t = t"
  using relabel_map(1) [of "\<lambda>d. d" t] by (simp add: map_node_id)

lemma image_src_node_src:
  "image_src paths d = Some src \<Longrightarrow> node_src d = Some src"
  by (auto simp: image_src_def split: node_data.splits option.splits if_splits)

lemma collected_indices:
  "j \<in> set (map fst (filter (\<lambda>nd. Q (snd nd)) (enumerate 0 store)))
     \<longleftrightarrow> j < length store \<and> Q (store ! j)"
  by (auto simp: in_set_enumerate_eq image_iff)

lemma collected_indices_distinct:
  "distinct (map fst (filter (\<lambda>nd. Q (snd nd)) (enumerate n store)))"
  by (rule distinct_map_filter) (simp add: map_fst_enumerate)

subsection \<open>The visitor\<close>

lemma map_of_entries_ok:
  assumes "entries_ok e opts filePath entries"
  shows "map_of entries k =
     (if k \<in> fst ` set entries then Some (resolve_reference e opts filePath k) else None)"
proof (cases "map_of entries k")
  case None
  then show ?thesis by (simp add: map_of_eq_None_iff)
next
  case (Some a)
  then have "(k, a) \<in> set entries" by (rule map_of_SomeD)
  moreover from this assms have "a = resolve_reference e opts filePath k"
    by (auto simp: entries_ok_def list_all_iff)
  ultimately show ?thesis using Some by force
qed

lemma visitor_step:
  assumes ok: "entries_ok e opts filePath (imagesToResolve st)"
  shows "entries_ok e opts filePath (imagesToResolve (visitor e opts filePath paths (i, d) st))
    \<and> fst ` set (imagesToResolve (visitor e opts filePath paths (i, d) st)) =
        fst ` set (imagesToResolve st) \<union> set_option (collected_src e opts filePath paths d)
    \<and> imageNodes (visitor e opts filePath paths (i, d) st) =
        imageNodes st @ (if collected_src e opts filePath paths d = None then [] else [i])"
proof (cases "image_src paths d")
  case None
  with ok show ?thesis by (simp add: visitor_def collected_src_def)
next
  case (Some src)
  show ?thesis
  proof (cases "src \<in> fst ` set (imagesToResolve st)")
    case True
    with map_of_entries_ok [OF ok, of src]
    have m: "map_of (imagesToResolve st) src = Some (resolve_reference e opts filePath src)"
      by simp
    then have "(src, resolve_reference e opts filePath src) \<in> set (imagesToResolve st)"
      by (rule map_of_SomeD)
    with ok have "existsSync e (resolve_reference e opts filePath src)"
      by (auto simp: entries_ok_def list_all_iff)
    with Some m True ok show ?thesis
      by (simp add: visitor_def collected_src_def insert_absorb)
  next
    case False
    with map_of_entries_ok [OF ok, of src]
    have m: "map_of (imagesToResolve st) src = None" by simp
    from False have nk: "src \<notin> set (map fst (imagesToResolve st))" by simp
    show ?thesis
      using Some m ok nk
      by (auto simp: visitor_def collected_src_def Let_def entries_ok_def)
  qed
qed

lemma visit_fold:
  assumes "entries_ok e opts filePath (imagesToResolve st)"
  shows "entries_ok e opts filePath
           (imagesToResolve (fold (visitor e opts filePath paths) (enumerate n ds) st))
    \<and> fst ` set (imagesToResolve (fold (visitor e opts filePath paths) (enumerate n ds) st)) =
        fst ` set (imagesToResolve st)
          \<union> {k. \<exists>d\<in>set ds. collected_src e opts filePath paths d = Some k}
    \<and> imageNodes (fold (visitor e opts filePath paths) (enumerate n ds) st) =
        imageNodes st @
          map fst (filter (\<lambda>nd. collected_src e opts filePath paths (snd nd) \<noteq> None)
                     (enumerate n ds))"
  using assms
proof (induction ds arbitrary: st n)
  case Nil
  then show ?case by simp
next
  case (Cons d ds)
  let ?st = "visitor e opts filePath paths (n, d) st"
  from visitor_step [OF Cons.prems, of paths n d]
  have ok: "entries_ok e opts filePath (imagesToResolve ?st)"
    and keys: "fst ` set (imagesToResolve ?st) =
        fst ` set (imagesToResolve st) \<union> set_option (collected_src e opts filePath paths d)"
    and nodes: "imageNodes ?st =
        imageNodes st @ (if collected_src e opts filePath paths d = None then [] else [n])"
    by simp_all
  from Cons.IH [OF ok, of "Suc n"] keys nodes show ?case
    by (cases "collected_src e opts filePath paths d") auto
qed

lemma collect_facts:
  "entries_ok e opts filePath (imagesToResolve (collect e opts filePath paths tree))"
  "fst ` set (imagesToResolve (collect e opts filePath paths tree)) =
     {k. \<exists>d\<in>set (preorder tree). collected_src e opts filePath paths d = Some k}"
  "imageNodes (collect e opts filePath paths tree) =
     map fst (filter (\<lambda>nd. collected_src e opts filePath paths (snd nd) \<noteq> None)
                (enumerate 0 (preorder tree)))"
proof -
  have "entries_ok e opts filePath (imagesToResolve \<lparr>imageNodes = [], imagesToResolve = []\<rparr>)"
    by (simp add: entries_ok_def)
  from visit_fold [OF this, of paths 0 "preorder tree"]
  show "entries_ok e opts filePath (imagesToResolve (collect e opts filePath paths tree))"
    and "fst ` set (imagesToResolve (collect e opts filePath paths tree)) =
     {k. \<exists>d\<in>set (preorder tree). collected_src e opts filePath paths d = Some k}"
    and "imageNodes (collect e opts filePath paths tree) =
     map fst (filter (\<lambda>nd. collected_src e opts filePath paths (snd nd) \<noteq> None)
                (enumerate 0 (preorder tree)))"
    by (simp_all add: collect_def)
qed

subsection \<open>The settled results\<close>

lemma image_pipeline_key:
  "image_pipeline e opts entry = Fulfilled r v \<Longrightarrow> r = fst entry"
  by (auto simp: image_pipeline_def split: sum.splits)

lemma record_result_simps:
  "record_result (Fulfilled k v) m = m(k \<mapsto> v)"
  "record_result (Rejected err) m = m"
  by (simp_all add: record_result_def)

lemma fold_record_result:
  assumes "distinct (map fst entries)"
  shows "fold record_result (map (image_pipeline e opts) entries) m k =
     (case map_of entries k of
        None \<Rightarrow> m k
      | Some a \<Rightarrow>
          (case image_pipeline e opts (k, a) of
             Fulfilled r v \<Rightarrow> Some v
           | Rejected err \<Rightarrow> m k))"
  using assms
proof (induction entries arbitrary: m k)
  case Nil
  show ?case by simp
next
  case (Cons entry entries)
  obtain k0 a0 where entry: "entry = (k0, a0)" by (cases entry)
  from Cons.prems entry have d: "distinct (map fst entries)" and nk: "k0 \<notin> fst ` set entries"
    by auto
  from nk have none: "map_of entries k0 = None"
    by (simp add: map_of_eq_None_iff)
  show ?case
  proof (cases "image_pipeline e opts (k0, a0)")
    case (Rejected err)
    have ih: "fold record_result (map (image_pipeline e opts) entries) m k' =
       (case map_of entries k' of
          None \<Rightarrow> m k'
        | Some a \<Rightarrow>
            (case image_pipeline e opts (k', a) of
               Fulfilled r v \<Rightarrow> Some v
             | Rejected err \<Rightarrow> m k'))" for k'
      by (rule Cons.IH [OF d])
    show ?thesis
      by (cases "k = k0") (simp_all add: ih entry none Rejected record_result_simps)
  next
    case (Fulfilled r v)
    with image_pipeline_key [of e opts "(k0, a0)" r v] have r: "r = k0" by simp
    have ih: "fold record_result (map (image_pipeline e opts) entries) (m(k0 \<mapsto> v)) k' =
       (case map_of entries k' of
          None \<Rightarrow> (m(k0 \<mapsto> v)) k'
        | Some a \<Rightarrow>
            (case image_pipeline e opts (k', a) of
               Fulfilled r v' \<Rightarrow> Some v'
             | Rejected err \<Rightarrow> (m(k0 \<mapsto> v)) k'))" for k'
      by (rule Cons.IH [OF d])
    show ?thesis
      by (cases "k = k0") (simp_all add: ih entry none Fulfilled r record_result_simps
          split: option.splits settled.splits)
  qed
qed

lemma fold_record_rejected:
  "list_all (\<lambda>r. \<exists>err. r = Rejected err) results \<Longrightarrow> fold record_result results m = m"
  by (induction results arbitrary: m) (auto simp: record_result_simps)

lemma resolved_lookup:
  assumes "collected_src e opts filePath paths d = Some src" and "d \<in> set (preorder tree)"
  shows "fold record_result
           (map (image_pipeline e opts) (imagesToResolve (collect e opts filePath paths tree)))
           Map.empty src =
         (case image_pipeline e opts (src, resolve_reference e opts filePath src) of
            Fulfilled r v \<Rightarrow> Some v
          | Rejected err \<Rightarrow> None)"
proof -
  let ?entries = "imagesToResolve (collect e opts filePath paths tree)"
  have ok: "entries_ok e opts filePath ?entries" by (rule collect_facts(1))
  from assms have "src \<in> fst ` set ?entries"
    unfolding collect_facts(2) by blast
  with map_of_entries_ok [OF ok, of src]
  have m: "map_of ?entries src = Some (resolve_reference e opts filePath src)" by simp
  from ok have "distinct (map fst ?entries)" by (simp add: entries_ok_def)
  from fold_record_result [OF this, of e opts Map.empty src] m show ?thesis by simp
qed

subsection \<open>The last loop\<close>

lemma rewrite_nodes_empty:
  "rewrite_nodes e opts Map.empty is store = (None, store)"
  by (induction "is" arbitrary: store) (auto split: option.splits)

lemma rewrite_nodes_step:
  assumes "\<And>s v. resolvedImages s = Some v \<Longrightarrow> v \<noteq> [] \<Longrightarrow> \<exists>u. final_src e opts v = Inr u"
  shows "rewrite_nodes e opts resolvedImages (i # rest) store =
         rewrite_nodes e opts resolvedImages rest
           (store[i := write_back e opts resolvedImages (store ! i)])"
proof (cases "case node_src (store ! i) of None \<Rightarrow> None | Some s \<Rightarrow> resolvedImages s")
  case None
  then show ?thesis by (simp add: write_back_def)
next
  case (Some resolvedSrc)
  show ?thesis
  proof (cases "resolvedSrc = []")
    case True
    with Some show ?thesis by (simp add: write_back_def)
  next
    case False
    from Some obtain s where "resolvedImages s = Some resolvedSrc"
      by (auto split: option.splits)
    from assms [OF this False] obtain u where "final_src e opts resolvedSrc = Inr u"
      by blast
    with Some False show ?thesis by (simp add: write_back_def)
  qed
qed

lemma rewrite_nodes_total:
  assumes "\<And>s v. resolvedImages s = Some v \<Longrightarrow> v \<noteq> [] \<Longrightarrow> \<exists>u. final_src e opts v = Inr u"
    and "distinct is" and "\<forall>i\<in>set is. i < length store"
  shows "fst (rewrite_nodes e opts resolvedImages is store) = None
    \<and> length (snd (rewrite_nodes e opts resolvedImages is store)) = length store
    \<and> (\<forall>j<length store. snd (rewrite_nodes e opts resolvedImages is store) ! j =
         (if j \<in> set is then write_back e opts resolvedImages (store ! j) else store ! j))"
  using assms(2,3)
proof (induction "is" arbitrary: store)
  case Nil
  show ?case by simp
next
  case (Cons i rest)
  let ?store = "store[i := write_back e opts resolvedImages (store ! i)]"
  from Cons.prems have d: "distinct rest" and ni: "i \<notin> set rest"
    and b: "\<forall>j\<in>set rest. j < length ?store" and bi: "i < length store"
    by auto
  from Cons.IH [OF d b] rewrite_nodes_step [of resolvedImages e opts i rest store, OF assms(1)]
    ni bi
  show ?case
    by (auto simp: nth_list_update)
qed

text \<open>The loop ends with an exception when it reaches a node whose location is refused.\<close>

lemma rewrite_nodes_throws:
  assumes "distinct is" and "\<forall>i\<in>set is. i < length store" and "j \<in> set is"
    and "node_src (store ! j) = Some s" and "resolvedImages s = Some v" and "v \<noteq> []"
    and "final_src e opts v = Inl err"
  shows "fst (rewrite_nodes e opts resolvedImages is store) \<noteq> None"
  using assms(1-4)
proof (induction "is" arbitrary: store)
  case Nil
  then show ?case by simp
next
  case (Cons i rest)
  show ?case
  proof (cases "i = j")
    case True
    with Cons.prems(4) assms(5-7) show ?thesis by simp
  next
    case False
    with Cons.prems have d: "distinct rest" and jr: "j \<in> set rest" and ni: "i \<notin> set rest"
      and bi: "i < length store" and br: "\<forall>k\<in>set rest. k < length store"
      by auto
    have same: "fst (rewrite_nodes e opts resolvedImages rest store) \<noteq> None"
      by (rule Cons.IH [OF d br jr Cons.prems(4)])
    have upd: "fst (rewrite_nodes e opts resolvedImages rest (store[i := x])) \<noteq> None" for x
    proof (rule Cons.IH [OF d _ jr])
      show "\<forall>k\<in>set rest. k < length (store[i := x])" using br by simp
      show "node_src (store[i := x] ! j) = Some s" using False Cons.prems(4) by simp
    qed
    show ?thesis
      using same upd by (auto split: option.splits sum.splits)
  qed
qed

lemma write_back_settle:
  assumes "d \<in> set (preorder tree)"
  shows "(if collected_src e opts filePath paths d \<noteq> None
          then write_back e opts
                 (fold record_result
                    (map (image_pipeline e opts)
                       (imagesToResolve (collect e opts filePath paths tree))) Map.empty) d
          else d) = settle_node e opts filePath paths d"
proof (cases "collected_src e opts filePath paths d")
  case None
  then show ?thesis by (simp add: settle_node_def)
next
  case (Some src)
  then have "image_src paths d = Some src"
    by (auto simp: collected_src_def split: option.splits if_splits)
  then have ns: "node_src d = Some src" by (rule image_src_node_src)
  from resolved_lookup [OF Some assms] ns Some show ?thesis
    by (simp add: write_back_def settle_node_def split: settled.splits)
qed

lemma pass_started:
  assumes "file_path file = Some filePath" and "filePath \<noteq> []"
    and "imagePaths file = SetOf paths" and "paths \<noteq> []"
  shows "transformer e opts tree file =
     (let st = collect e opts filePath paths tree;
          results = map (image_pipeline e opts) (imagesToResolve st);
          resolvedImages = fold record_result results Map.empty;
          written = rewrite_nodes e opts resolvedImages (imageNodes st) (preorder tree)
      in \<lparr>thrown = fst written,
          tree_after = relabel (snd written) tree,
          warnings = concat (map warning_of results),
          metadata_reads = map snd (imagesToResolve st),
          optimizer_calls = requests_made e opts (imagesToResolve st),
          resolved_images = resolvedImages\<rparr>)"
  using assms by (simp add: transformer_def)

lemma resolved_from_entry:
  assumes "distinct (map fst entries)"
    and "fold record_result (map (image_pipeline e opts) entries) Map.empty s = Some v"
  shows "\<exists>a r. (s, a) \<in> set entries \<and> image_pipeline e opts (s, a) = Fulfilled r v"
proof -
  from fold_record_result [OF assms(1), of e opts Map.empty s] assms(2)
  obtain a where m: "map_of entries s = Some a"
    and p: "(case image_pipeline e opts (s, a) of
               Fulfilled r v' \<Rightarrow> Some v'
             | Rejected err \<Rightarrow> None) = Some v"
    by (auto split: option.splits)
  from m have "(s, a) \<in> set entries" by (rule map_of_SomeD)
  moreover from p obtain r where "image_pipeline e opts (s, a) = Fulfilled r v"
    by (auto split: settled.splits)
  ultimately show ?thesis by blast
qed

lemma resolved_accepted:
  assumes "distinct (map fst entries)" and "urls_accepted e opts entries"
    and "fold record_result (map (image_pipeline e opts) entries) Map.empty s = Some v"
    and "v \<noteq> []"
  shows "\<exists>u. final_src e opts v = Inr u"
proof -
  from resolved_from_entry [OF assms(1,3)] obtain a r
    where "(s, a) \<in> set entries" and "image_pipeline e opts (s, a) = Fulfilled r v"
    by blast
  with assms(2,4) show ?thesis
    by (auto simp: urls_accepted_def list_all_iff)
qed

text \<open>
  A pass that gets past the first test and never sees \<open>new URL\<close> throw ends normally,
  and its tree is the old tree with every node settled on its own.
\<close>

lemma pass_tree:
  assumes "file_path file = Some filePath" and "filePath \<noteq> []"
    and "imagePaths file = SetOf paths" and "paths \<noteq> []"
    and "urls_accepted e opts (imagesToResolve (collect e opts filePath paths tree))"
  shows "thrown (transformer e opts tree file) = None
    \<and> tree_after (transformer e opts tree file) =
        map_node (settle_node e opts filePath paths) tree"
proof -
  let ?st = "collect e opts filePath paths tree"
  let ?resolved =
    "fold record_result (map (image_pipeline e opts) (imagesToResolve ?st)) Map.empty"
  let ?store = "preorder tree"
  let ?written = "rewrite_nodes e opts ?resolved (imageNodes ?st) ?store"
  let ?Q = "\<lambda>d. collected_src e opts filePath paths d \<noteq> None"
  have nodes: "imageNodes ?st = map fst (filter (\<lambda>nd. ?Q (snd nd)) (enumerate 0 ?store))"
    by (rule collect_facts(3))
  have d: "distinct (imageNodes ?st)"
    unfolding nodes by (rule collected_indices_distinct)
  have b: "\<forall>i\<in>set (imageNodes ?st). i < length ?store"
    unfolding nodes using collected_indices [of _ ?Q ?store] by blast
  have keys: "distinct (map fst (imagesToResolve ?st))"
    using collect_facts(1) [of e opts filePath paths tree] by (simp add: entries_ok_def)
  have acc: "\<exists>u. final_src e opts v = Inr u" if "?resolved s = Some v" and "v \<noteq> []" for s v
    using resolved_accepted [OF keys assms(5) that] .
  from rewrite_nodes_total [of ?resolved e opts "imageNodes ?st" ?store, OF acc d b]
  have thrown: "fst ?written = None"
    and len: "length (snd ?written) = length ?store"
    and nth: "\<forall>j<length ?store. snd ?written ! j =
         (if j \<in> set (imageNodes ?st) then write_back e opts ?resolved (?store ! j)
          else ?store ! j)"
    by simp_all
  have "snd ?written = map (settle_node e opts filePath paths) ?store"
  proof (rule nth_equalityI)
    show "length (snd ?written) = length (map (settle_node e opts filePath paths) ?store)"
      using len by simp
  next
    fix j assume "j < length (snd ?written)"
    with len have j: "j < length ?store" by simp
    then have mem: "?store ! j \<in> set ?store" by simp
    from j have "j \<in> set (imageNodes ?st) \<longleftrightarrow> ?Q (?store ! j)"
      unfolding nodes using collected_indices [of j ?Q ?store] by simp
    with nth j write_back_settle [OF mem, of e opts filePath paths]
    show "snd ?written ! j = map (settle_node e opts filePath paths) ?store ! j"
      by simp
  qed
  then have "relabel (snd ?written) tree = map_node (settle_node e opts filePath paths) tree"
    by (simp add: relabel_map(1))
  with thrown assms(1-4) show ?thesis
    by (simp add: transformer_def Let_def)
qed

text \<open>
  Conversely, a pass in which some pipeline was fulfilled with a non-empty location that
  cannot be written back ends with an exception: the reference of that pipeline stands
  on a collected node, which the last loop reaches unless it has thrown before.
\<close>

lemma pass_throws:
  assumes "file_path file = Some filePath" and "filePath \<noteq> []"
    and "imagePaths file = SetOf paths" and "paths \<noteq> []"
    and "\<not> urls_accepted e opts (imagesToResolve (collect e opts filePath paths tree))"
  shows "thrown (transformer e opts tree file) \<noteq> None"
proof -
  let ?st = "collect e opts filePath paths tree"
  let ?entries = "imagesToResolve ?st"
  let ?resolved = "fold record_result (map (image_pipeline e opts) ?entries) Map.empty"
  let ?store = "preorder tree"
  let ?Q = "\<lambda>d. collected_src e opts filePath paths d \<noteq> None"
  have ok: "entries_ok e opts filePath ?entries" by (rule collect_facts(1))
  then have keys: "distinct (map fst ?entries)" by (simp add: entries_ok_def)
  from assms(5) obtain entry where mem: "entry \<in> set ?entries"
    and refused: "\<not> (case image_pipeline e opts entry of
                    Fulfilled relativePath resolvedSrc \<Rightarrow>
                      if resolvedSrc = [] then True
                      else (\<exists>v. final_src e opts resolvedSrc = Inr v)
                  | Rejected reason \<Rightarrow> True)"
    by (auto simp: urls_accepted_def list_all_iff)
  obtain s a where entry: "entry = (s, a)" by (cases entry)
  from refused obtain r v where ful: "image_pipeline e opts (s, a) = Fulfilled r v"
    and ne: "v \<noteq> []" and no: "\<forall>u. final_src e opts v \<noteq> Inr u"
    unfolding entry by (cases "image_pipeline e opts (s, a)") (auto split: if_splits)
  from no obtain err where bad: "final_src e opts v = Inl err"
    by (cases "final_src e opts v") auto
  from mem entry have ent: "(s, a) \<in> set ?entries" by simp
  from ent keys have "map_of ?entries s = Some a" by (simp add: map_of_eq_Some_iff)
  with fold_record_result [OF keys, of e opts Map.empty s] ful
  have res: "?resolved s = Some v" by simp
  from ent have "s \<in> fst ` set ?entries" by force
  then obtain d where dm: "d \<in> set ?store"
      and col: "collected_src e opts filePath paths d = Some s"
    unfolding collect_facts(2) by blast
  from dm obtain j where j: "j < length ?store" and dj: "?store ! j = d"
    by (auto simp: in_set_conv_nth)
  have nodes: "imageNodes ?st = map fst (filter (\<lambda>nd. ?Q (snd nd)) (enumerate 0 ?store))"
    by (rule collect_facts(3))
  have dist: "distinct (imageNodes ?st)"
    unfolding nodes by (rule collected_indices_distinct)
  have bound: "\<forall>i\<in>set (imageNodes ?st). i < length ?store"
    unfolding nodes using collected_indices [of _ ?Q ?store] by blast
  from j dj col have jin: "j \<in> set (imageNodes ?st)"
    unfolding nodes using collected_indices [of j ?Q ?store] by simp
  from col have "image_src paths d = Some s"
    by (auto simp: collected_src_def split: option.splits if_splits)
  then have "node_src d = Some s" by (rule image_src_node_src)
  with dj have ns: "node_src (?store ! j) = Some s" by simp
  from rewrite_nodes_throws
    [where resolvedImages = ?resolved and e = e and opts = opts and s = s and v = v,
     OF dist bound jin ns res ne bad]
  show ?thesis
    by (simp add: pass_started [OF assms(1-4)] Let_def)
qed

lemma pass_skipped:
  assumes "\<not> (\<exists>filePath paths. file_path file = Some filePath \<and> filePath \<noteq> []
                \<and> imagePaths file = SetOf paths \<and> paths \<noteq> [])"
  shows "transformer e opts tree file =
     \<lparr>thrown = None, tree_after = tree, warnings = [], metadata_reads = [],
      optimizer_calls = [], resolved_images = Map.empty\<rparr>"
  using assms
  by (cases "imagePaths file") (auto simp: transformer_def split: option.splits)

lemma requests_made_length: "length (requests_made e opts entries) \<le> length entries"
  by (induction entries) (auto simp: requests_made_def split: sum.splits)

subsection \<open>One pipeline for each reference\<close>

text \<open>
  Claim C1, as it holds of the code. In a pass that gets past the first test, the keys of
  \<open>imagesToResolve\<close> are exactly the distinct reference strings carried by at least one
  \<open>img\<close> node that passes the visitor's test and whose file exists; one pipeline is
  started for each key. The metadata reads of the pass are one read for each key, in
  order, at the path the key resolves to. The calls of the image service are, for each
  key in order, no call when the metadata or the asset file name of the key fails and
  otherwise the one call with that metadata and that file name. The count is by
  reference string, whatever the number of nodes that carry it.
\<close>

theorem one_pipeline_per_reference:
  assumes "file_path file = Some filePath" and "filePath \<noteq> []"
    and "imagePaths file = SetOf paths" and "paths \<noteq> []"
  shows "metadata_reads (transformer e opts tree file) =
           map (resolve_reference e opts filePath)
             (map fst (imagesToResolve (collect e opts filePath paths tree)))
    \<and> distinct (map fst (imagesToResolve (collect e opts filePath paths tree)))
    \<and> set (map fst (imagesToResolve (collect e opts filePath paths tree))) =
        {src. \<exists>d\<in>set (preorder tree). collected_src e opts filePath paths d = Some src}
    \<and> optimizer_calls (transformer e opts tree file) =
        concat (map (\<lambda>src. case pipeline_request e opts
                                 (src, resolve_reference e opts filePath src) of
                             Inl err \<Rightarrow> []
                           | Inr request \<Rightarrow> [request])
                  (map fst (imagesToResolve (collect e opts filePath paths tree))))
    \<and> length (optimizer_calls (transformer e opts tree file))
        \<le> length (metadata_reads (transformer e opts tree file))"
proof -
  let ?entries = "imagesToResolve (collect e opts filePath paths tree)"
  have ok: "entries_ok e opts filePath ?entries" by (rule collect_facts(1))
  then have paths: "\<forall>entry\<in>set ?entries.
      entry = (fst entry, resolve_reference e opts filePath (fst entry))"
    by (auto simp: entries_ok_def list_all_iff)
  from ok have "map snd ?entries = map (resolve_reference e opts filePath) (map fst ?entries)"
    by (simp add: entries_ok_def list_all_iff)
  moreover from ok have "distinct (map fst ?entries)"
    by (simp add: entries_ok_def)
  moreover have "set (map fst ?entries) =
      {src. \<exists>d\<in>set (preorder tree). collected_src e opts filePath paths d = Some src}"
    using collect_facts(2) [of e opts filePath paths tree] by simp
  moreover have "requests_made e opts ?entries =
        concat (map (\<lambda>src. case pipeline_request e opts
                                 (src, resolve_reference e opts filePath src) of
                             Inl err \<Rightarrow> []
                           | Inr request \<Rightarrow> [request])
                  (map fst ?entries))"
    unfolding requests_made_def map_map
  proof (rule arg_cong [where f = concat], rule map_cong [OF refl])
    fix entry assume "entry \<in> set ?entries"
    with paths have "entry = (fst entry, resolve_reference e opts filePath (fst entry))"
      by blast
    then have "pipeline_request e opts entry =
        pipeline_request e opts (fst entry, resolve_reference e opts filePath (fst entry))"
      by simp
    then show "(case pipeline_request e opts entry of
                  Inl err \<Rightarrow> []
                | Inr request \<Rightarrow> [request]) =
          ((\<lambda>src. case pipeline_request e opts
                          (src, resolve_reference e opts filePath src) of
                      Inl err \<Rightarrow> []
                    | Inr request \<Rightarrow> [request]) \<circ> fst) entry"
      by (simp only: comp_def)
  qed
  moreover have "length (requests_made e opts ?entries) \<le> length (map snd ?entries)"
    using requests_made_length [of e opts ?entries] by simp
  ultimately show ?thesis
    by (simp add: pass_started [OF assms] Let_def)
qed

theorem one_pipeline_per_reference_witness:
  "metadata_reads (transformer example_env example_options example_tree example_file) =
     [''/proj/src/pages/img/a.png'', ''/proj/src/pages/img/b.png'',
      ''/proj/src/assets/logo.png'']
   \<and> map fst (imagesToResolve
          (collect example_env example_options ''/proj/src/pages/post.md''
             [''./img/a.png'', ''./img/b.png'', ''~/assets/logo.png''] example_tree))
      = [''./img/a.png'', ''./img/b.png'', ''~/assets/logo.png'']
   \<and> optimizer_calls (transformer example_env example_options example_tree example_file) =
     [(\<lparr>width = 4, height = 3, format = ''png''\<rparr>, ''assets/a-e3b0c442.png''),
      (\<lparr>width = 4, height = 3, format = ''png''\<rparr>, ''assets/logo-e3b0c442.png'')]"
proof -
  have keys: "map fst (imagesToResolve
          (collect example_env example_options ''/proj/src/pages/post.md''
             [''./img/a.png'', ''./img/b.png'', ''~/assets/logo.png''] example_tree))
      = [''./img/a.png'', ''./img/b.png'', ''~/assets/logo.png'']"
    by code_simp
  have reads: "map (resolve_reference example_env example_options ''/proj/src/pages/post.md'')
       [''./img/a.png'', ''./img/b.png'', ''~/assets/logo.png''] =
     [''/proj/src/pages/img/a.png'', ''/proj/src/pages/img/b.png'',
      ''/proj/src/assets/logo.png'']"
    by code_simp
  have calls: "concat (map (\<lambda>src. case pipeline_request example_env example_options
                 (src, resolve_reference example_env example_options
                         ''/proj/src/pages/post.md'' src) of
               Inl err \<Rightarrow> []
             | Inr request \<Rightarrow> [request])
          [''./img/a.png'', ''./img/b.png'', ''~/assets/logo.png'']) =
     [(\<lparr>width = 4, height = 3, format = ''png''\<rparr>, ''assets/a-e3b0c442.png''),
      (\<lparr>width = 4, height = 3, format = ''png''\<rparr>, ''assets/logo-e3b0c442.png'')]"
    by code_simp
  from one_pipeline_per_reference
    [of example_file "''/proj/src/pages/post.md''"
        "[''./img/a.png'', ''./img/b.png'', ''~/assets/logo.png'']"
        example_env example_options example_tree]
  show ?thesis
    unfolding keys reads calls by (simp add: example_file_def)
qed

text \<open>
  Claim C1 as stated fails: two references to one file start two pipelines, both for the
  same absolute path.
\<close>

theorem one_pipeline_per_reference_counterexample:
  "metadata_reads (transformer example_env example_options alias_tree alias_file) =
     [''/proj/src/pages/img/a.png'', ''/proj/src/pages/img/a.png'']
   \<and> length (optimizer_calls (transformer example_env example_options alias_tree alias_file))
       = 2"
  by code_simp

subsection \<open>Settling each image on its own\<close>

text \<open>
  Claim C3, as it holds of the code. In a pass that gets past the first test, whether or
  not some pipeline is rejected: the result of every fulfilled pipeline is in
  \<open>resolvedImages\<close> under its reference and no rejected one is; the pass ends without
  an exception exactly when every non-empty location a pipeline was fulfilled with can
  be written back, which is so when no base URL is set, and otherwise when \<open>new URL\<close>
  accepts each of these locations against the base URL; and then every node is settled
  by the pipeline of its own reference alone (\<open>settle_node\<close>): it keeps its fields when
  that pipeline was rejected or answered with an empty location, and gets the final
  location as its \<open>src\<close> otherwise.
\<close>

theorem pipelines_settle_independently:
  assumes "file_path file = Some filePath" and "filePath \<noteq> []"
    and "imagePaths file = SetOf paths" and "paths \<noteq> []"
  shows "list_all
        (\<lambda>entry. resolved_images (transformer e opts tree file) (fst entry) =
           (case image_pipeline e opts entry of
              Fulfilled r v \<Rightarrow> Some v
            | Rejected err \<Rightarrow> None))
        (imagesToResolve (collect e opts filePath paths tree))
    \<and> (configured_root opts = None \<longrightarrow>
         urls_accepted e opts (imagesToResolve (collect e opts filePath paths tree)))
    \<and> (thrown (transformer e opts tree file) = None \<longleftrightarrow>
         urls_accepted e opts (imagesToResolve (collect e opts filePath paths tree)))
    \<and> (urls_accepted e opts (imagesToResolve (collect e opts filePath paths tree)) \<longrightarrow>
         tree_after (transformer e opts tree file) =
           map_node (settle_node e opts filePath paths) tree)"
proof -
  let ?entries = "imagesToResolve (collect e opts filePath paths tree)"
  have ok: "entries_ok e opts filePath ?entries" by (rule collect_facts(1))
  then have d: "distinct (map fst ?entries)" by (simp add: entries_ok_def)
  have res: "resolved_images (transformer e opts tree file) =
      fold record_result (map (image_pipeline e opts) ?entries) Map.empty"
    by (simp add: pass_started [OF assms] Let_def)
  have "resolved_images (transformer e opts tree file) (fst entry) =
           (case image_pipeline e opts entry of
              Fulfilled r v \<Rightarrow> Some v
            | Rejected err \<Rightarrow> None)" if "entry \<in> set ?entries" for entry
  proof -
    from that have "(fst entry, snd entry) \<in> set ?entries" by simp
    then have "map_of ?entries (fst entry) = Some (snd entry)"
      by (simp add: map_of_eq_Some_iff [OF d])
    with fold_record_result [OF d, of e opts Map.empty "fst entry"] res
    show ?thesis by simp
  qed
  then have mapping: "list_all
        (\<lambda>entry. resolved_images (transformer e opts tree file) (fst entry) =
           (case image_pipeline e opts entry of
              Fulfilled r v \<Rightarrow> Some v
            | Rejected err \<Rightarrow> None)) ?entries"
    by (simp add: list_all_iff)
  have plain: "urls_accepted e opts ?entries" if "configured_root opts = None"
    using that by (simp add: urls_accepted_def final_src_def list_all_iff split: settled.splits)
  have ends: "thrown (transformer e opts tree file) = None \<longleftrightarrow> urls_accepted e opts ?entries"
    using pass_tree [OF assms, of e opts tree] pass_throws [OF assms, of e opts tree]
    by blast
  have settled: "tree_after (transformer e opts tree file) =
           map_node (settle_node e opts filePath paths) tree"
    if "urls_accepted e opts ?entries"
    using pass_tree [OF assms that] by simp
  from mapping plain ends settled show ?thesis by blast
qed

theorem pipelines_settle_independently_witness:
  "thrown (transformer example_env example_options example_tree example_file) = None
   \<and> tree_after (transformer example_env example_options example_tree example_file) =
       Node RootNode
         [Node (Element ''p'' (Some []))
            [Node (TextNode ''see '') [],
             Node (Element ''img''
                     (Some [(''src'', PString ''//_astro/a-e3b0c442.png''),
                            (''alt'', PString ''A'')])) []],
          Node (Element ''img'' (Some [(''src'', PString ''./img/b.png'')])) [],
          Node (Element ''img''
                  (Some [(''alt'', PString ''L''),
                         (''src'', PString ''//_astro/logo-e3b0c442.png'')])) [],
          Node (Element ''img'' (Some [(''src'', PString ''//_astro/a-e3b0c442.png'')])) []]
   \<and> image_pipeline example_env example_options
        (''./img/b.png'', ''/proj/src/pages/img/b.png'')
       = Rejected (ServiceFailed ''/proj/src/pages/img/b.png'')"
proof -
  have c: "configured_root example_options = None"
    by (simp add: configured_root_def example_options_def)
  have t: "map_node (settle_node example_env example_options ''/proj/src/pages/post.md''
                       [''./img/a.png'', ''./img/b.png'', ''~/assets/logo.png'']) example_tree =
       Node RootNode
         [Node (Element ''p'' (Some []))
            [Node (TextNode ''see '') [],
             Node (Element ''img''
                     (Some [(''src'', PString ''//_astro/a-e3b0c442.png''),
                            (''alt'', PString ''A'')])) []],
          Node (Element ''img'' (Some [(''src'', PString ''./img/b.png'')])) [],
          Node (Element ''img''
                  (Some [(''alt'', PString ''L''),
                         (''src'', PString ''//_astro/logo-e3b0c442.png'')])) [],
          Node (Element ''img'' (Some [(''src'', PString ''//_astro/a-e3b0c442.png'')])) []]"
    by code_simp
  have r: "image_pipeline example_env example_options
        (''./img/b.png'', ''/proj/src/pages/img/b.png'')
       = Rejected (ServiceFailed ''/proj/src/pages/img/b.png'')"
    by code_simp
  from c t r pipelines_settle_independently
    [of example_file "''/proj/src/pages/post.md''"
        "[''./img/a.png'', ''./img/b.png'', ''~/assets/logo.png'']"
        example_env example_options example_tree]
  show ?thesis
    by (simp add: example_file_def)
qed

text \<open>
  Claim C3 as stated fails in two ways. The metadata of \<open>b.png\<close> is rejected in both
  runs. In the first the pipeline of the logo is fulfilled with an empty location: it is
  in the mapping, and the node keeps its \<open>src\<close>. In the second a base URL is set that
  \<open>new URL\<close> refuses: the pass ends with that exception.
\<close>

theorem pipelines_settle_independently_counterexample:
  "image_pipeline blank_env example_options (''~/assets/logo.png'', ''/proj/src/assets/logo.png'')
     = Fulfilled ''~/assets/logo.png'' []
   \<and> resolved_images (transformer blank_env example_options example_tree example_file)
        ''~/assets/logo.png'' = Some []
   \<and> tree_after (transformer blank_env example_options example_tree example_file) =
       Node RootNode
         [Node (Element ''p'' (Some []))
            [Node (TextNode ''see '') [],
             Node (Element ''img''
                     (Some [(''src'', PString ''//_astro/a-e3b0c442.png''),
                            (''alt'', PString ''A'')])) []],
          Node (Element ''img'' (Some [(''src'', PString ''./img/b.png'')])) [],
          Node (Element ''img''
                  (Some [(''alt'', PString ''L''), (''src'', PString ''~/assets/logo.png'')])) [],
          Node (Element ''img'' (Some [(''src'', PString ''//_astro/a-e3b0c442.png'')])) []]
   \<and> thrown (transformer example_env
                (example_options\<lparr>rootUrl := Some (UrlString ''example.com'')\<rparr>)
                example_tree example_file)
       = Some (InvalidURL ''/_astro/a-e3b0c442.png'')"
  by code_simp

subsection \<open>More than one output\<close>

text \<open>
  Claim C7, as it holds of the code. When the output option of the configuration is an
  array, \<open>getImageAssetFileName\<close> throws for every image, after reading the file and
  before a file name is generated: the descriptive error when the file can be read. The
  exception rejects the pipeline of that image only: the pass ends normally, with one
  warning for each pipeline, no call of the image service, and the tree unchanged.
\<close>

theorem multiple_outputs_reject_each_image:
  assumes "config_output (viteConfig opts) = Some (OutputArray outs)"
  shows "getImageAssetFileName e absolutePath (viteConfig opts) =
           (case readFileSync e absolutePath of
              None \<Rightarrow> Inl (ReadFailed absolutePath)
            | Some data \<Rightarrow> Inl MultipleOutputOptions)
    \<and> thrown (transformer e opts tree file) = None
    \<and> tree_after (transformer e opts tree file) = tree
    \<and> optimizer_calls (transformer e opts tree file) = []
    \<and> length (warnings (transformer e opts tree file)) =
        length (metadata_reads (transformer e opts tree file))"
proof -
  have name: "getImageAssetFileName e p (viteConfig opts) =
           (case readFileSync e p of
              None \<Rightarrow> Inl (ReadFailed p)
            | Some data \<Rightarrow> Inl MultipleOutputOptions)" for p
    using assms
    by (simp add: getImageAssetFileName_def getImageSource_def split: option.splits)
  have req: "\<exists>err. pipeline_request e opts entry = Inl err" for entry
    using name [of "snd entry"]
    by (auto simp: pipeline_request_def split: sum.splits option.splits)
  have rej: "\<exists>err. image_pipeline e opts entry = Rejected err" for entry
    using req [of entry] by (auto simp: image_pipeline_def)
  show ?thesis
  proof (cases "\<exists>filePath paths. file_path file = Some filePath \<and> filePath \<noteq> []
                  \<and> imagePaths file = SetOf paths \<and> paths \<noteq> []")
    case False
    from pass_skipped [OF False, of e opts tree] name [of absolutePath]
    show ?thesis by simp
  next
    case True
    then obtain filePath paths where g: "file_path file = Some filePath" "filePath \<noteq> []"
        "imagePaths file = SetOf paths" "paths \<noteq> []"
      by blast
    let ?entries = "imagesToResolve (collect e opts filePath paths tree)"
    let ?results = "map (image_pipeline e opts) ?entries"
    have all: "list_all (\<lambda>r. \<exists>err. r = Rejected err) ?results"
      using rej by (simp add: list_all_iff)
    then have empty: "fold record_result ?results Map.empty = Map.empty"
      by (rule fold_record_rejected)
    have one: "(case pipeline_request e opts entry of
                  Inl err \<Rightarrow> []
                | Inr request \<Rightarrow> [request]) = []" for entry
      using req [of entry] by auto
    have none: "requests_made e opts ?entries = []"
      by (simp add: requests_made_def one)
    have "length (concat (map warning_of rs)) = length rs"
      if "list_all (\<lambda>r. \<exists>err. r = Rejected err) rs" for rs
      using that by (induction rs) (auto simp: warning_of_def)
    from this [OF all] have w: "length (concat (map warning_of ?results)) = length ?entries"
      by simp
    from empty none w name [of absolutePath] show ?thesis
      by (simp add: pass_started [OF g] Let_def rewrite_nodes_empty relabel_preorder)
  qed
qed

theorem multiple_outputs_reject_each_image_witness:
  "getImageAssetFileName example_env ''/proj/src/pages/img/a.png'' (viteConfig array_options)
     = Inl MultipleOutputOptions
   \<and> thrown (transformer example_env array_options example_tree example_file) = None
   \<and> tree_after (transformer example_env array_options example_tree example_file)
       = example_tree
   \<and> optimizer_calls (transformer example_env array_options example_tree example_file) = []"
  using multiple_outputs_reject_each_image
    [of array_options "[None, None]" example_env "''/proj/src/pages/img/a.png''"
        example_tree example_file]
  by (simp add: array_options_def example_options_def example_env_def config_output_def)

text \<open>
  Claim C7 as stated fails: with two outputs configured the pass does not throw; the
  errors are logged as warnings, after the files have been read.
\<close>

theorem multiple_outputs_reject_each_image_counterexample:
  "thrown (transformer example_env array_options example_tree example_file) = None
   \<and> warnings (transformer example_env array_options example_tree example_file) =
       [MultipleOutputOptions, ServiceFailed ''/proj/src/pages/img/b.png'',
        MultipleOutputOptions]"
  by code_simp

end
